theory Spec2Isabelle
  imports Main "HOL-Library.Sublist"
begin

text \<open>
  A model of src/index.ts, the command-line translator: the commands of class
  \<^verbatim>\<open>Translate\<close> as functions on an explicit world (files, the key-value store, the
  calls made to the translation backend, the lines printed), and the structured-file
  pipeline of \<^verbatim>\<open>translateFile\<close> (extraction of the leaves, the batch string, its
  decoding, the rebuild of the document). The translation backend and \<^verbatim>\<open>JSON.parse\<close>
  are parameters of the model; the answers of the interactive prompts are arguments.
\<close>

section \<open>JavaScript values and string primitives used by src/index.ts\<close>

text \<open>
  A parsed JSON document, as \<^verbatim>\<open>JSON.parse\<close> hands it to \<^verbatim>\<open>translateFile\<close>.
  An object is the list of its members in the order \<^verbatim>\<open>Object.entries\<close> enumerates them
  (a JavaScript object has no duplicate keys; the well-formedness predicate below says so
  where a theorem needs it). Numbers are kept as integers: the program never computes with
  a number, it only skips it or prints it back.
\<close>

datatype json =
    JNull
  | JBool bool
  | JNum int
  | JStr string
  | JArr "json list"
  | JObj "(string \<times> json) list"

text \<open>What the program can throw. \<^verbatim>\<open>translateFile\<close> and \<^verbatim>\<open>translate\<close> catch
  whatever is thrown inside their \<^verbatim>\<open>try\<close> block and rethrow it as
  \<^verbatim>\<open>new Error(error)\<close>: that is \<open>Error e\<close>.\<close>

datatype error =
    InvalidArgumentError string
  | TypeError
  | SyntaxError
  | BackendError
  | ReadError
  | Error error

text \<open>\<^verbatim>\<open>s.split(sep)\<close> with a string separator: the pieces between the
  occurrences of \<open>sep\<close>, found from left to right without overlap; the result is never
  empty for a non-empty separator. \<open>split_at\<close> is the scan for a non-empty separator.\<close>

fun split_at :: "string \<Rightarrow> string \<Rightarrow> string list" where
  "split_at [] sep = [[]]"
| "split_at (c # cs) sep =
     (if prefix sep (c # cs) then [] # split_at (drop (length sep - 1) cs) sep
      else (case split_at cs sep of [] \<Rightarrow> [[c]] | p # ps \<Rightarrow> (c # p) # ps))"

definition js_split :: "string \<Rightarrow> string \<Rightarrow> string list" where
  "js_split s sep = (if sep = [] then map (\<lambda>c. [c]) s else split_at s sep)"

text \<open>\<^verbatim>\<open>xs.join(sep)\<close>.\<close>

fun js_join :: "string list \<Rightarrow> string \<Rightarrow> string" where
  "js_join [] sep = []"
| "js_join [x] sep = x"
| "js_join (x # y # ys) sep = x @ sep @ js_join (y # ys) sep"

text \<open>\<^verbatim>\<open>s.includes(sub)\<close> on strings.\<close>

fun js_includes :: "string \<Rightarrow> string \<Rightarrow> bool" where
  "js_includes [] sub = (sub = [])"
| "js_includes (c # cs) sub = (prefix sub (c # cs) \<or> js_includes cs sub)"

text \<open>The decimal text of an array position, as the template literal
  \<^verbatim>\<open>`${index}`\<close> prints it and as an array spells the property key of that position.\<close>

fun toString :: "nat \<Rightarrow> string" where
  "toString n =
     (if n < 10 then [''0123456789'' ! n]
      else toString (n div 10) @ [''0123456789'' ! (n mod 10)])"

declare toString.simps [simp del]

subsection \<open>JSON.stringify\<close>

text \<open>\<^verbatim>\<open>QuoteJSONString\<close> of ECMAScript: the quote, the backslash and the control
  characters are escaped, every other character (the slash and the equals sign among them)
  is copied.\<close>

definition hex_digit :: "nat \<Rightarrow> char" where
  "hex_digit d = ''0123456789abcdef'' ! d"

definition quote_char :: "char \<Rightarrow> string" where
  "quote_char c =
     (if c = CHR 0x08 then [CHR 0x5C, CHR ''b'']
      else if c = CHR 0x09 then [CHR 0x5C, CHR ''t'']
      else if c = CHR 0x0A then [CHR 0x5C, CHR ''n'']
      else if c = CHR 0x0C then [CHR 0x5C, CHR ''f'']
      else if c = CHR 0x0D then [CHR 0x5C, CHR ''r'']
      else if c = CHR 0x22 then [CHR 0x5C, CHR 0x22]
      else if c = CHR 0x5C then [CHR 0x5C, CHR 0x5C]
      else if (of_char c :: nat) < 32
        then [CHR 0x5C, CHR ''u'', CHR ''0'', CHR ''0'',
              hex_digit (of_char c div 16), hex_digit (of_char c mod 16)]
      else [c])"

definition quote :: "string \<Rightarrow> string" where
  "quote s = [CHR 0x22] @ concat (map quote_char s) @ [CHR 0x22]"

text \<open>\<^verbatim>\<open>JSON.stringify(value)\<close>, the compact form used for the batch string.\<close>

fun JSON_stringify :: "json \<Rightarrow> string" where
  "JSON_stringify JNull = ''null''"
| "JSON_stringify (JBool b) = (if b then ''true'' else ''false'')"
| "JSON_stringify (JNum n) =
     (if n < 0 then CHR ''-'' # toString (nat (- n)) else toString (nat n))"
| "JSON_stringify (JStr s) = quote s"
| "JSON_stringify (JArr xs) = ''['' @ js_join (map JSON_stringify xs) '','' @ '']''"
| "JSON_stringify (JObj kvs) =
     ''{'' @ js_join (map (\<lambda>(k, v). quote k @ '':'' @ JSON_stringify v) kvs) '','' @ ''}''"

text \<open>\<^verbatim>\<open>JSON.stringify(value, null, 4)\<close>, the form written to the output file;
  \<open>ind\<close> is the indentation of the enclosing level.\<close>

fun stringify_indent :: "string \<Rightarrow> json \<Rightarrow> string" where
  "stringify_indent ind (JArr xs) =
     (if xs = [] then ''[]''
      else ''['' @ [CHR 0x0A]
        @ js_join (map (\<lambda>x. (ind @ ''    '') @ stringify_indent (ind @ ''    '') x) xs)
            ('','' @ [CHR 0x0A])
        @ [CHR 0x0A] @ ind @ '']'')"
| "stringify_indent ind (JObj kvs) =
     (if kvs = [] then ''{}''
      else ''{'' @ [CHR 0x0A]
        @ js_join (map (\<lambda>(k, v). (ind @ ''    '') @ quote k @ '': ''
                          @ stringify_indent (ind @ ''    '') v) kvs)
            ('','' @ [CHR 0x0A])
        @ [CHR 0x0A] @ ind @ ''}'')"
| "stringify_indent ind v = JSON_stringify v"

definition JSON_stringify_indent4 :: "json \<Rightarrow> string" where
  "JSON_stringify_indent4 v = stringify_indent [] v"

subsection \<open>A JSON reader for the concrete runs\<close>

text \<open>
  \<^verbatim>\<open>JSON.parse\<close> is a function of the platform. The program is modelled with the
  reader as a parameter \<open>parse\<close> (\<open>None\<close> is the thrown SyntaxError), so every general
  theorem holds for any reader. \<open>JSON_parse\<close> below is the reader the concrete runs use:
  a recursive-descent reader of the JSON grammar with integers for numbers (a number with
  a fraction or an exponent is outside the value type above and is refused), run with
  enough fuel for the whole input.
\<close>

definition is_ws :: "char \<Rightarrow> bool" where
  "is_ws c = (c = CHR '' '' \<or> c = CHR 0x09 \<or> c = CHR 0x0A \<or> c = CHR 0x0D)"

definition skip_ws :: "string \<Rightarrow> string" where
  "skip_ws s = dropWhile is_ws s"

definition is_digit :: "char \<Rightarrow> bool" where
  "is_digit c = (c \<in> set ''0123456789'')"

definition digit_val :: "char \<Rightarrow> nat" where
  "digit_val c = of_char c - 48"

definition read_nat :: "string \<Rightarrow> nat" where
  "read_nat s = foldl (\<lambda>a c. 10 * a + digit_val c) 0 s"

definition hex_val :: "char \<Rightarrow> nat option" where
  "hex_val c =
     (if is_digit c then Some (of_char c - 48)
      else if c \<in> set ''abcdef'' then Some (of_char c - 87)
      else if c \<in> set ''ABCDEF'' then Some (of_char c - 55)
      else None)"

definition unescape :: "char \<Rightarrow> char option" where
  "unescape e =
     (if e = CHR 0x22 then Some (CHR 0x22)
      else if e = CHR 0x5C then Some (CHR 0x5C)
      else if e = CHR ''/'' then Some (CHR ''/'')
      else if e = CHR ''b'' then Some (CHR 0x08)
      else if e = CHR ''f'' then Some (CHR 0x0C)
      else if e = CHR ''n'' then Some (CHR 0x0A)
      else if e = CHR ''r'' then Some (CHR 0x0D)
      else if e = CHR ''t'' then Some (CHR 0x09)
      else None)"

definition cons_fst :: "'a \<Rightarrow> ('a list \<times> 'b) option \<Rightarrow> ('a list \<times> 'b) option" where
  "cons_fst x r = (case r of None \<Rightarrow> None | Some (xs, t) \<Rightarrow> Some (x # xs, t))"

text \<open>The characters of a string literal, read after its opening quote.\<close>

fun parse_chars :: "string \<Rightarrow> (string \<times> string) option" where
  "parse_chars [] = None"
| "parse_chars [c] = (if c = CHR 0x22 then Some ([], []) else None)"
| "parse_chars (c # e # r) =
     (if c = CHR 0x22 then Some ([], e # r)
      else if c = CHR 0x5C then
        (if e = CHR ''u'' then
           (case map hex_val (take 4 r) of
              [Some a, Some b, Some c', Some d] \<Rightarrow>
                (if a = 0 \<and> b = 0
                 then cons_fst (char_of (16 * c' + d)) (parse_chars (drop 4 r))
                 else None)
            | _ \<Rightarrow> None)
         else (case unescape e of
                 None \<Rightarrow> None
               | Some ch \<Rightarrow> cons_fst ch (parse_chars r)))
      else if (of_char c :: nat) < 32 then None
      else cons_fst c (parse_chars (e # r)))"

definition parse_number :: "string \<Rightarrow> (json \<times> string) option" where
  "parse_number s =
     (let neg = (s \<noteq> [] \<and> hd s = CHR ''-'');
          body = (if neg then tl s else s);
          ds = takeWhile is_digit body;
          r = dropWhile is_digit body
      in if ds = [] \<or> (length ds > 1 \<and> hd ds = CHR ''0'') then None
         else if r \<noteq> [] \<and> hd r \<in> set ''.eE'' then None
         else Some (JNum (if neg then - int (read_nat ds) else int (read_nat ds)), r))"

text \<open>\<^verbatim>\<open>obj[k] = v\<close> on a plain object: an existing member keeps its place, a new
  one is added last.\<close>

fun assign :: "string \<Rightarrow> json \<Rightarrow> (string \<times> json) list \<Rightarrow> (string \<times> json) list" where
  "assign k v [] = [(k, v)]"
| "assign k v ((k', v') # kvs) =
     (if k = k' then (k, v) # kvs else (k', v') # assign k v kvs)"

fun parse_value :: "nat \<Rightarrow> string \<Rightarrow> (json \<times> string) option"
  and parse_elements :: "nat \<Rightarrow> string \<Rightarrow> (json list \<times> string) option"
  and parse_members :: "nat \<Rightarrow> string \<Rightarrow> ((string \<times> json) list \<times> string) option"
where
  "parse_value 0 s = None"
| "parse_value (Suc n) s =
     (case skip_ws s of
        [] \<Rightarrow> None
      | c # cs \<Rightarrow>
          if c = CHR 0x22 then
            (case parse_chars cs of None \<Rightarrow> None | Some (str, r) \<Rightarrow> Some (JStr str, r))
          else if c = CHR ''['' then
            (if skip_ws cs \<noteq> [] \<and> hd (skip_ws cs) = CHR '']''
             then Some (JArr [], tl (skip_ws cs))
             else (case parse_elements n cs of
                     None \<Rightarrow> None | Some (xs, r) \<Rightarrow> Some (JArr xs, r)))
          else if c = CHR ''{'' then
            (if skip_ws cs \<noteq> [] \<and> hd (skip_ws cs) = CHR ''}''
             then Some (JObj [], tl (skip_ws cs))
             else (case parse_members n cs of
                     None \<Rightarrow> None
                   | Some (kvs, r) \<Rightarrow> Some (JObj (fold (\<lambda>(k, v). assign k v) kvs []), r)))
          else if prefix ''null'' (c # cs) then Some (JNull, drop 4 (c # cs))
          else if prefix ''true'' (c # cs) then Some (JBool True, drop 4 (c # cs))
          else if prefix ''false'' (c # cs) then Some (JBool False, drop 5 (c # cs))
          else parse_number (c # cs))"
| "parse_elements 0 s = None"
| "parse_elements (Suc n) s =
     (case parse_value n s of
        None \<Rightarrow> None
      | Some (v, r) \<Rightarrow>
          (case skip_ws r of
             [] \<Rightarrow> None
           | c # r' \<Rightarrow>
               if c = CHR '']'' then Some ([v], r')
               else if c = CHR '','' then cons_fst v (parse_elements n r')
               else None))"
| "parse_members 0 s = None"
| "parse_members (Suc n) s =
     (case skip_ws s of
        [] \<Rightarrow> None
      | q # cs \<Rightarrow>
          if q \<noteq> CHR 0x22 then None
          else (case parse_chars cs of
                  None \<Rightarrow> None
                | Some (k, r) \<Rightarrow>
                    (case skip_ws r of
                       [] \<Rightarrow> None
                     | c # r1 \<Rightarrow>
                         if c \<noteq> CHR '':'' then None
                         else (case parse_value n r1 of
                                 None \<Rightarrow> None
                               | Some (v, r2) \<Rightarrow>
                                   (case skip_ws r2 of
                                      [] \<Rightarrow> None
                                    | d # r3 \<Rightarrow>
                                        if d = CHR ''}'' then Some ([(k, v)], r3)
                                        else if d = CHR '','' then cons_fst (k, v) (parse_members n r3)
                                        else None)))))"

definition JSON_parse :: "string \<Rightarrow> json option" where
  "JSON_parse s =
     (case parse_value (2 * length s + 2) s of
        None \<Rightarrow> None
      | Some (v, r) \<Rightarrow> if skip_ws r = [] then Some v else None)"

section \<open>The structured-file pipeline of translateFile\<close>

subsection \<open>Leaf extraction: resolveMessages and resolvePaths\<close>

text \<open>One entry of \<^verbatim>\<open>messages\<close>: \<^verbatim>\<open>{ path, text }\<close>, the text being the
  value as found (a string or an array).\<close>

record LeafRecord =
  path :: string
  "text" :: json

text \<open>\<^verbatim>\<open>currentPath ? currentPath + '/' + key : key\<close>. \<open>None\<close> is the
  \<^verbatim>\<open>undefined\<close> of the first call; the test is JavaScript's truthiness, so the empty
  string takes the second branch as well.\<close>

definition childPath :: "string option \<Rightarrow> string \<Rightarrow> string" where
  "childPath currentPath key =
     (case currentPath of
        None \<Rightarrow> key
      | Some c \<Rightarrow> if c = [] then key else c @ ''/'' @ key)"

text \<open>The loop of \<^verbatim>\<open>resolvePaths\<close> over \<^verbatim>\<open>Object.entries(obj)\<close>; the
  result is what the loop pushes to \<^verbatim>\<open>messages\<close>, in order. The nested call is not
  awaited in the source, but its body has no suspension point and runs to its end before
  the loop goes on.\<close>

fun resolveEntries :: "(string \<times> json) list \<Rightarrow> string option \<Rightarrow> LeafRecord list" where
  "resolveEntries [] currentPath = []"
| "resolveEntries ((key, JStr s) # rest) currentPath =
     (if s = [] then []
      else [\<lparr>path = childPath currentPath key, text = JStr s\<rparr>])
     @ resolveEntries rest currentPath"
| "resolveEntries ((key, JArr xs) # rest) currentPath =
     (if xs = [] then []
      else [\<lparr>path = childPath currentPath key, text = JArr xs\<rparr>])
     @ resolveEntries rest currentPath"
| "resolveEntries ((key, JObj kvs) # rest) currentPath =
     (if kvs \<noteq> [] then resolveEntries kvs (Some (childPath currentPath key)) else [])
     @ resolveEntries rest currentPath"
| "resolveEntries ((key, JNull) # rest) currentPath = resolveEntries rest currentPath"
| "resolveEntries ((key, JBool b) # rest) currentPath = resolveEntries rest currentPath"
| "resolveEntries ((key, JNum n) # rest) currentPath = resolveEntries rest currentPath"

text \<open>\<^verbatim>\<open>Object.entries\<close> of any parsed value: the members of an object, the
  positions of an array or of a string, nothing for a number or a boolean, a TypeError
  for \<^verbatim>\<open>null\<close>.\<close>

fun Object_entries :: "json \<Rightarrow> error + (string \<times> json) list" where
  "Object_entries (JObj kvs) = Inr kvs"
| "Object_entries (JArr xs) = Inr (map (\<lambda>(i, x). (toString i, x)) (enumerate 0 xs))"
| "Object_entries (JStr s) = Inr (map (\<lambda>(i, c). (toString i, JStr [c])) (enumerate 0 s))"
| "Object_entries JNull = Inl TypeError"
| "Object_entries (JBool b) = Inr []"
| "Object_entries (JNum n) = Inr []"

definition resolvePaths :: "json \<Rightarrow> string option \<Rightarrow> error + LeafRecord list" where
  "resolvePaths obj currentPath =
     (case Object_entries obj of
        Inl e \<Rightarrow> Inl e
      | Inr entries \<Rightarrow> Inr (resolveEntries entries currentPath))"

definition resolveMessages :: "json \<Rightarrow> error + LeafRecord list" where
  "resolveMessages data = resolvePaths data None"

subsection \<open>The batch string and its decoding\<close>

text \<open>\<^verbatim>\<open>messages.map(({ text }, index) => `${index}==${JSON.stringify(text)}`).join('//')\<close>\<close>

definition encodeMessages :: "LeafRecord list \<Rightarrow> string" where
  "encodeMessages messages =
     js_join (map (\<lambda>(index, m). toString index @ ''=='' @ JSON_stringify (text m))
                (enumerate 0 messages)) ''//''"

text \<open>\<^verbatim>\<open>text.split('//').map(message => message.split('=='))\<close>\<close>

definition decodeText :: "string \<Rightarrow> string list list" where
  "decodeText t = map (\<lambda>message. js_split message ''=='') (js_split t ''//'')"

text \<open>\<^verbatim>\<open>messages[index]\<close> with a string key: the element at position \<open>i\<close> when the
  key is the decimal text of \<open>i\<close> and \<open>i\<close> is below the length. For every other key the
  read gives no record: either \<^verbatim>\<open>undefined\<close>, whose \<^verbatim>\<open>.path\<close> throws a TypeError,
  or a built-in member of the array (its length, a method), which has no \<^verbatim>\<open>path\<close>,
  so that the path handed on is \<^verbatim>\<open>undefined\<close> and cannot be split.\<close>

definition array_get :: "'a list \<Rightarrow> string \<Rightarrow> 'a option" where
  "array_get xs key =
     (case find (\<lambda>i. toString i = key) [0..<length xs] of
        None \<Rightarrow> None
      | Some i \<Rightarrow> Some (xs ! i))"

text \<open>
  Modelled from the spec: \<^verbatim>\<open>ObjectManager.set\<close> of the package object.mn is not in
  src. The spec's words: "splits it on /, and sets that nested location in the output
  document to value, creating intermediate mapping levels as needed". \<open>member_object\<close> is
  the mapping found under a key, a fresh one when the key is absent or holds no mapping.
\<close>

definition member_object :: "(string \<times> json) list \<Rightarrow> string \<Rightarrow> (string \<times> json) list" where
  "member_object obj k = (case map_of obj k of Some (JObj sub) \<Rightarrow> sub | _ \<Rightarrow> [])"

fun set_keys :: "string list \<Rightarrow> json \<Rightarrow> (string \<times> json) list \<Rightarrow> (string \<times> json) list" where
  "set_keys [] v obj = obj"
| "set_keys [k] v obj = assign k v obj"
| "set_keys (k # k' # ks) v obj =
     assign k (JObj (set_keys (k' # ks) v (member_object obj k))) obj"

definition ObjectManager_set :: "(string \<times> json) list \<Rightarrow> string \<Rightarrow> json \<Rightarrow> (string \<times> json) list" where
  "ObjectManager_set obj p v = set_keys (js_split p ''/'') v obj"

text \<open>One turn of
  \<^verbatim>\<open>for (let [index, value] of newMessages) objectMessages.set(messages[index].path, JSON.parse(value))\<close>:
  \<open>index\<close> is the first piece and \<open>value\<close> the second; a missing piece is
  \<^verbatim>\<open>undefined\<close>, which \<^verbatim>\<open>JSON.parse\<close> reads as the text "undefined". The
  arguments are evaluated from left to right.\<close>

definition setMessage ::
  "(string \<Rightarrow> json option) \<Rightarrow> LeafRecord list \<Rightarrow> string list \<Rightarrow> (string \<times> json) list
    \<Rightarrow> error + (string \<times> json) list" where
  "setMessage parse messages pieces obj =
     (let index = (case pieces of [] \<Rightarrow> ''undefined'' | i # _ \<Rightarrow> i);
          value = (case pieces of _ # v # _ \<Rightarrow> v | _ \<Rightarrow> ''undefined'')
      in case array_get messages index of
           None \<Rightarrow> Inl TypeError
         | Some m \<Rightarrow>
             (case parse value of
                None \<Rightarrow> Inl SyntaxError
              | Some v \<Rightarrow> Inr (ObjectManager_set obj (path m) v)))"

fun rebuild ::
  "(string \<Rightarrow> json option) \<Rightarrow> LeafRecord list \<Rightarrow> string list list \<Rightarrow> (string \<times> json) list
    \<Rightarrow> error + (string \<times> json) list" where
  "rebuild parse messages [] obj = Inr obj"
| "rebuild parse messages (pieces # rest) obj =
     (case setMessage parse messages pieces obj of
        Inl e \<Rightarrow> Inl e
      | Inr obj' \<Rightarrow> rebuild parse messages rest obj')"

section \<open>The commands of class Translate\<close>

text \<open>The key-value store behind \<^verbatim>\<open>this.db\<close>, with the three entries the program
  reads, and the world a command runs in: the files, the store, the calls made to the
  translation backend (text and target language) and the lines printed.\<close>

record Database =
  defaultLanguage :: "string option"
  longName :: "string list"
  shortName :: "string list"

record world =
  files :: "string \<Rightarrow> string option"
  db :: Database
  calls :: "(string \<times> string) list"
  console :: "string list"

record OptionsCommand =
  opt_to :: "string option"
  opt_languages :: bool

text \<open>\<^verbatim>\<open>path.split('/').at(-1)\<close>, the extension
  \<^verbatim>\<open>(path.split('/').at(-1))?.split('.').pop()\<close> the switch looks at, and
  \<^verbatim>\<open>(path.split('/').at(-1))?.split('.')[0] + '-translated.json'\<close> (or
  \<^verbatim>\<open>.txt\<close>).\<close>

definition baseName :: "string \<Rightarrow> string" where
  "baseName p = last (js_split p ''/'')"

definition fileType :: "string \<Rightarrow> string" where
  "fileType p = last (js_split (baseName p) ''.'')"

definition pathTranslated :: "string \<Rightarrow> string \<Rightarrow> string" where
  "pathTranslated p ext = hd (js_split (baseName p) ''.'') @ ''-translated.'' @ ext"

definition targetLanguage :: "world \<Rightarrow> string" where
  "targetLanguage w = (case defaultLanguage (db w) of None \<Rightarrow> ''en'' | Some d \<Rightarrow> d)"

text \<open>The \<^verbatim>\<open>json\<close> case of \<^verbatim>\<open>translateFile\<close>. \<open>backend\<close> is the translation
  function of the library (text and target language to the translated text, \<open>None\<close>
  when it throws). A throw inside \<^verbatim>\<open>resolvePaths\<close> happens in a promise executor and
  is not caught by the \<^verbatim>\<open>try\<close>: the command ends there with that error unwrapped.\<close>

definition translateFile_json ::
  "(string \<Rightarrow> json option) \<Rightarrow> (string \<Rightarrow> string \<Rightarrow> string option) \<Rightarrow> world \<Rightarrow> string
    \<Rightarrow> error option \<times> world" where
  "translateFile_json parse backend w p =
     (case files w p of
        None \<Rightarrow> (Some (Error ReadError), w)
      | Some content \<Rightarrow>
     (case parse content of
        None \<Rightarrow> (Some (Error SyntaxError), w)
      | Some data \<Rightarrow>
     (case resolveMessages data of
        Inl e \<Rightarrow> (Some e, w)
      | Inr messages \<Rightarrow>
     (let message = encodeMessages messages;
          w1 = w\<lparr>calls := calls w @ [(message, targetLanguage w)]\<rparr>
      in case backend message (targetLanguage w) of
           None \<Rightarrow> (Some (Error BackendError), w1)
         | Some translated \<Rightarrow>
     (case rebuild parse messages (decodeText translated) [] of
        Inl e \<Rightarrow> (Some (Error e), w1)
      | Inr objectData \<Rightarrow>
          (None, w1\<lparr>files := (files w1)(pathTranslated p ''json'' \<mapsto>
                              JSON_stringify_indent4 (JObj objectData)),
                    console := console w1 @
                      [''! Translation completed successfully, path: ''
                        @ pathTranslated p ''json'']\<rparr>))))))"

definition translateFile_txt ::
  "(string \<Rightarrow> string \<Rightarrow> string option) \<Rightarrow> world \<Rightarrow> string \<Rightarrow> error option \<times> world" where
  "translateFile_txt backend w p =
     (case files w p of
        None \<Rightarrow> (Some (Error ReadError), w)
      | Some content \<Rightarrow>
     (let w1 = w\<lparr>calls := calls w @ [(content, targetLanguage w)]\<rparr>
      in case backend content (targetLanguage w) of
           None \<Rightarrow> (Some (Error BackendError), w1)
         | Some translated \<Rightarrow>
             (None, w1\<lparr>files := (files w1)(pathTranslated p ''txt'' \<mapsto> translated),
                       console := console w1 @
                         [''! Translation completed successfully, path: ''
                           @ pathTranslated p ''txt'']\<rparr>)))"

text \<open>\<^verbatim>\<open>translateFile\<close>, from the path the prompt returned on.\<close>

definition translateFile ::
  "(string \<Rightarrow> json option) \<Rightarrow> (string \<Rightarrow> string \<Rightarrow> string option) \<Rightarrow> world \<Rightarrow> string
    \<Rightarrow> error option \<times> world" where
  "translateFile parse backend w p =
     (if files w p = None then (None, w\<lparr>console := console w @ [''! File not found!'']\<rparr>)
      else if fileType p = ''json'' then translateFile_json parse backend w p
      else if fileType p = ''txt'' then translateFile_txt backend w p
      else (None, w))"

text \<open>\<^verbatim>\<open>translate(message, to)\<close> of the class.\<close>

definition translate ::
  "(string \<Rightarrow> string \<Rightarrow> string option) \<Rightarrow> world \<Rightarrow> string list \<Rightarrow> string
    \<Rightarrow> error option \<times> world" where
  "translate backend w message to =
     (let w1 = w\<lparr>calls := calls w @ [(js_join message '' '', to)]\<rparr>
      in case backend (js_join message '' '') to of
           None \<Rightarrow> (Some (Error BackendError), w1)
         | Some translated \<Rightarrow>
             (None, w1\<lparr>console := console w1 @ [''> Translation: '' @ translated]\<rparr>))"

text \<open>\<^verbatim>\<open>languages()\<close>: one line per long name, with the short name of the same
  position.\<close>

definition languages :: "Database \<Rightarrow> string list" where
  "languages d =
     map (\<lambda>(index, language).
            ''  '' @ language @ '' (''
              @ (if index < length (shortName d) then shortName d ! index else ''undefined'')
              @ '')'')
         (enumerate 0 (longName d))"

text \<open>\<^verbatim>\<open>run(message, options)\<close>. \<^verbatim>\<open>Object.keys(options).length\<close> counts the options
  that were given; \<^verbatim>\<open>options.to ?? this.db.get('defaultLanguage') ?? 'en'\<close> takes the
  first of the three that is not null or undefined.\<close>

definition run ::
  "(string \<Rightarrow> string \<Rightarrow> string option) \<Rightarrow> world \<Rightarrow> string list \<Rightarrow> OptionsCommand
    \<Rightarrow> error option \<times> world" where
  "run backend w message options =
     (if opt_languages options
      then (None, w\<lparr>console := console w @
              [''Available languages: '' @ [CHR 0x0A] @ js_join (languages (db w)) [CHR 0x0A]]\<rparr>)
      else if message = [] \<and> opt_to options = None
      then (Some (InvalidArgumentError ''You have not defined any valid arguments!''), w)
      else if message = [] \<and> opt_to options \<noteq> None \<and> opt_to options \<noteq> Some []
      then (Some (InvalidArgumentError
              ''For you to translate to a specific language, first inform the message!''), w)
      else translate backend w message
             (case opt_to options of
                Some t \<Rightarrow> t
              | None \<Rightarrow> (case defaultLanguage (db w) of Some d \<Rightarrow> d | None \<Rightarrow> ''en'')))"

text \<open>\<^verbatim>\<open>to()\<close>: \<open>language\<close> is the entry the user picked in the prompt.\<close>

definition to :: "world \<Rightarrow> string \<Rightarrow> error option \<times> world" where
  "to w language =
     (None, w\<lparr>db := (db w)\<lparr>defaultLanguage := Some language\<rparr>,
              console := console w @
                [''! The chosen language ('' @ language
                  @ '') has been set as default in translations.'']\<rparr>)"

text \<open>\<^verbatim>\<open>verifyString(value)\<close>, the argument parser of \<^verbatim>\<open>--to\<close> (the command line
  hands it a string, so the first test never fires).\<close>

definition verifyString :: "Database \<Rightarrow> string \<Rightarrow> error + string" where
  "verifyString d v =
     (if v \<notin> set (longName d) \<and> v \<notin> set (shortName d)
      then Inl (InvalidArgumentError
        ''You provided a non-existent language, use --languages to see available languages'')
      else Inr v)"

text \<open>What the constructor wires up and \<^verbatim>\<open>new Translate().parse(process.argv)\<close>
  starts. An invocation is the options given (the value of \<^verbatim>\<open>--to\<close> if any, the flag
  \<^verbatim>\<open>--languages\<close>) and the command: a message for the default action, or one of the
  subcommands with the answer to its prompt. The option parser of \<^verbatim>\<open>--to\<close> runs while
  the arguments are read, and a throw there ends the invocation; the action of the command
  runs only when every argument was accepted. The subcommands do not look at the options.\<close>

datatype command =
    Phrase "string list"
  | To string
  | File string
  | Web

definition Translate_parse ::
  "(string \<Rightarrow> json option) \<Rightarrow> (string \<Rightarrow> string \<Rightarrow> string option) \<Rightarrow> world
    \<Rightarrow> string option \<Rightarrow> bool \<Rightarrow> command \<Rightarrow> error option \<times> world" where
  "Translate_parse parse backend w toArg languagesFlag cmd =
     (case (case toArg of
              None \<Rightarrow> Inr None
            | Some v \<Rightarrow>
                (case verifyString (db w) v of Inl e \<Rightarrow> Inl e | Inr v' \<Rightarrow> Inr (Some v'))) of
        Inl e \<Rightarrow> (Some e, w)
      | Inr accepted \<Rightarrow>
          (case cmd of
             Phrase message \<Rightarrow>
               run backend w message \<lparr>opt_to = accepted, opt_languages = languagesFlag\<rparr>
           | To language \<Rightarrow> to w language
           | File p \<Rightarrow> translateFile parse backend w p
           | Web \<Rightarrow> (None, w)))"

section \<open>Worlds used by the concrete runs\<close>

definition catalog :: Database where
  "catalog = \<lparr>defaultLanguage = None,
              longName = [''English'', ''French'', ''Spanish''],
              shortName = [''en'', ''fr'', ''es'']\<rparr>"

definition world0 :: world where
  "world0 = \<lparr>files = Map.empty, db = catalog, calls = [], console = []\<rparr>"

definition world_fr :: world where
  "world_fr = world0\<lparr>db := catalog\<lparr>defaultLanguage := Some ''fr''\<rparr>\<rparr>"

text \<open>The identity backend of the round-trip property.\<close>

definition identity_backend :: "string \<Rightarrow> string \<Rightarrow> string option" where
  "identity_backend t l = Some t"

section \<open>Notions the properties are stated with\<close>

subsection \<open>The spec's extraction, by key chains\<close>

text \<open>Section 4.1 of the spec, with the path of a leaf kept as the list of keys from the
  root to the leaf: a non-empty string or array is a leaf, a non-empty nested mapping is
  entered with the chain extended by its key, everything else is skipped.
  \<open>spec_extract\<close> joins each chain with slashes, as the spec words it.\<close>

fun keyChains :: "(string \<times> json) list \<Rightarrow> (string list \<times> json) list" where
  "keyChains [] = []"
| "keyChains ((key, JStr s) # rest) =
     (if s = [] then [] else [([key], JStr s)]) @ keyChains rest"
| "keyChains ((key, JArr xs) # rest) =
     (if xs = [] then [] else [([key], JArr xs)]) @ keyChains rest"
| "keyChains ((key, JObj kvs) # rest) =
     (if kvs \<noteq> [] then map (\<lambda>(ch, t). (key # ch, t)) (keyChains kvs) else [])
     @ keyChains rest"
| "keyChains ((key, JNull) # rest) = keyChains rest"
| "keyChains ((key, JBool b) # rest) = keyChains rest"
| "keyChains ((key, JNum n) # rest) = keyChains rest"

definition spec_extract :: "(string \<times> json) list \<Rightarrow> LeafRecord list" where
  "spec_extract kvs = map (\<lambda>(ch, t). \<lparr>path = js_join ch ''/'', text = t\<rparr>) (keyChains kvs)"

text \<open>The path the code builds along a key chain: \<open>childPath\<close> applied key by key,
  starting from \<open>currentPath\<close>.\<close>

fun pathOf :: "string option \<Rightarrow> string list \<Rightarrow> string" where
  "pathOf cur [] = (case cur of None \<Rightarrow> [] | Some c \<Rightarrow> c)"
| "pathOf cur (k # ks) = pathOf (Some (childPath cur k)) ks"

text \<open>The documents of the round-trip property: every member is a non-empty string, a
  non-empty array or a non-empty nested document of the same kind; no key contains the
  slash; the keys of one mapping are distinct. \<open>no_empty_parent\<close> says that no top-level
  key that holds a nested mapping is the empty string.\<close>

fun plain_document :: "(string \<times> json) list \<Rightarrow> bool" where
  "plain_document [] = True"
| "plain_document ((key, JStr s) # rest) =
     (s \<noteq> [] \<and> CHR ''/'' \<notin> set key \<and> key \<notin> set (map fst rest) \<and> plain_document rest)"
| "plain_document ((key, JArr xs) # rest) =
     (xs \<noteq> [] \<and> CHR ''/'' \<notin> set key \<and> key \<notin> set (map fst rest) \<and> plain_document rest)"
| "plain_document ((key, JObj kvs) # rest) =
     (kvs \<noteq> [] \<and> plain_document kvs \<and> CHR ''/'' \<notin> set key \<and> key \<notin> set (map fst rest)
      \<and> plain_document rest)"
| "plain_document ((key, JNull) # rest) = False"
| "plain_document ((key, JBool b) # rest) = False"
| "plain_document ((key, JNum n) # rest) = False"

definition no_empty_parent :: "(string \<times> json) list \<Rightarrow> bool" where
  "no_empty_parent kvs = list_all (\<lambda>(k, v). case v of JObj sub \<Rightarrow> k \<noteq> [] | _ \<Rightarrow> True) kvs"

definition is_leaf :: "json \<Rightarrow> bool" where
  "is_leaf t = (case t of JStr s \<Rightarrow> True | JArr xs \<Rightarrow> True | _ \<Rightarrow> False)"

text \<open>The pipeline of the round-trip property,
  \<^verbatim>\<open>rebuild(extract(D), decode(encode(extract(D))))\<close>: the steps of
  \<^verbatim>\<open>translateFile\<close> with a backend that returns the batch string as it is.\<close>

definition roundTrip :: "(string \<Rightarrow> json option) \<Rightarrow> json \<Rightarrow> error + (string \<times> json) list" where
  "roundTrip parse data =
     (case resolveMessages data of
        Inl e \<Rightarrow> Inl e
      | Inr messages \<Rightarrow> rebuild parse messages (decodeText (encodeMessages messages)) [])"

text \<open>Abbreviations for the proofs: one token of the batch string, the loop of
  \<^verbatim>\<open>set\<close> calls over records, and the same loop over key chains.\<close>

definition token :: "nat \<Rightarrow> json \<Rightarrow> string" where
  "token i t = toString i @ ''=='' @ JSON_stringify t"

definition setAll :: "LeafRecord list \<Rightarrow> (string \<times> json) list \<Rightarrow> (string \<times> json) list" where
  "setAll rs obj = fold (\<lambda>m acc. ObjectManager_set acc (path m) (text m)) rs obj"

definition setChains :: "(string list \<times> json) list \<Rightarrow> (string \<times> json) list \<Rightarrow> (string \<times> json) list" where
  "setChains cs obj = fold (\<lambda>(ch, t) acc. set_keys ch t acc) cs obj"

subsection \<open>The spec's decoder, and malformed tokens\<close>

text \<open>Section 4.3 of the spec splits a token "on the first == occurrence": \<open>spec_splitFirst\<close>
  is that split, \<open>None\<close> when the separator does not occur.\<close>

fun spec_splitFirst :: "string \<Rightarrow> string \<Rightarrow> (string \<times> string) option" where
  "spec_splitFirst [] sep = None"
| "spec_splitFirst (c # cs) sep =
     (if prefix sep (c # cs) then Some ([], drop (length sep) (c # cs))
      else (case spec_splitFirst cs sep of
              None \<Rightarrow> None
            | Some (a, b) \<Rightarrow> Some (c # a, b)))"

text \<open>A token is malformed for the decoder of the code when it has no "==", or when its
  first piece is not a number, or when its second piece is not JSON for the reader.\<close>

definition numeric :: "string \<Rightarrow> bool" where
  "numeric s = (s \<noteq> [] \<and> list_all is_digit s)"

definition malformed_token :: "(string \<Rightarrow> json option) \<Rightarrow> string \<Rightarrow> bool" where
  "malformed_token parse tok =
     (\<not> js_includes tok ''==''
      \<or> (case js_split tok ''=='' of
            index # payload # _ \<Rightarrow> \<not> numeric index \<or> parse payload = None
          | _ \<Rightarrow> False))"

subsection \<open>Inputs of the concrete runs\<close>

definition doc1 :: "(string \<times> json) list" where
  "doc1 = [(''greeting'', JStr ''hello''),
           (''nested'', JObj [(''farewell'', JStr ''bye''), (''list'', JArr [JStr ''a'', JStr ''b''])])]"

definition one_leaf :: "LeafRecord list" where
  "one_leaf = [\<lparr>path = ''k'', text = JStr ''a''\<rparr>]"

definition junk_backend :: "string \<Rightarrow> string \<Rightarrow> string option" where
  "junk_backend t l = Some ''0==\"hola\"//oops''"

definition truncating_backend :: "string \<Rightarrow> string \<Rightarrow> string option" where
  "truncating_backend t l = Some ''0==\"a\"==junk''"

definition world_files :: world where
  "world_files = world0\<lparr>files :=
     [''a.b.json'' \<mapsto> ''{\"k\": \"v\"}'',
      ''dir/x.txt'' \<mapsto> ''hello'',
      ''dir/doc.json'' \<mapsto>
        ''{\"greeting\": \"hello\", \"nested\": {\"farewell\": \"bye\", \"list\": [\"a\", \"b\"]}}'']\<rparr>"

section \<open>Splitting and joining\<close>

text \<open>What \<open>split_at\<close> returns for a one-character separator (the slash of paths, the dot
  of file names) and for a separator of one character twice (the "//" and "==" of the
  batch string).\<close>

lemma split_at_not_Nil [simp]: "split_at s sep \<noteq> []"
  by (induction s sep rule: split_at.induct) (auto split: list.split)

lemma split_at1_none: "c \<notin> set x \<Longrightarrow> split_at x [c] = [x]"
  by (induction x) (auto split: list.split)

lemma split_at1_append:
  "c \<notin> set x \<Longrightarrow> split_at (x @ c # r) [c] = x # split_at r [c]"
  by (induction x) (auto split: list.split)

lemma split_at1_join:
  "ks \<noteq> [] \<Longrightarrow> \<forall>k\<in>set ks. c \<notin> set k \<Longrightarrow> split_at (js_join ks [c]) [c] = ks"
proof (induction ks "[c]" rule: js_join.induct)
  case 1 then show ?case by simp
next
  case (2 x) then show ?case by (simp add: split_at1_none)
next
  case (3 x y ys)
  then show ?case by (simp add: split_at1_append)
qed

lemma hd_split_at1: "hd (split_at s [c]) = takeWhile (\<lambda>x. x \<noteq> c) s"
  by (induction s) (auto split: list.split)

lemma tl_split_at1_append: "tl (split_at (a @ c # b) [c]) \<noteq> []"
  by (induction a) (auto split: list.split)

lemma last_split_at1_append:
  "c \<notin> set b \<Longrightarrow> last (split_at (a @ c # b) [c]) = b"
proof (induction a)
  case Nil then show ?case by (simp add: split_at1_none)
next
  case (Cons x a)
  have "tl (split_at (a @ c # b) [c]) \<noteq> []" by (rule tl_split_at1_append)
  with Cons show ?case
    by (cases "split_at (a @ c # b) [c]") (auto split: list.split)
qed

lemma split_at2_none: "\<not> js_includes x [c, c] \<Longrightarrow> split_at x [c, c] = [x]"
  by (induction x) (auto split: list.split)

lemma split_at2_append:
  "\<not> js_includes x [c, c] \<Longrightarrow> (x \<noteq> [] \<Longrightarrow> last x \<noteq> c)
   \<Longrightarrow> split_at (x @ c # c # r) [c, c] = x # split_at r [c, c]"
proof (induction x)
  case Nil then show ?case by simp
next
  case (Cons a x)
  show ?case
  proof (cases x)
    case Nil
    with Cons.prems show ?thesis by simp
  next
    case (Cons b x')
    with Cons.prems Cons.IH show ?thesis by (auto split: list.split)
  qed
qed

lemma js_includes2_notin: "c \<notin> set x \<Longrightarrow> \<not> js_includes x [c, c]"
  by (induction x) auto

lemma js_includes2_append_notin:
  "c \<notin> set a \<Longrightarrow> js_includes (a @ b) [c, c] = js_includes b [c, c]"
  by (induction a) auto

lemma split_at2_join:
  "ts \<noteq> [] \<Longrightarrow> \<forall>t\<in>set ts. \<not> js_includes t [c, c] \<and> (t \<noteq> [] \<longrightarrow> last t \<noteq> c)
   \<Longrightarrow> split_at (js_join ts [c, c]) [c, c] = ts"
proof (induction ts "[c, c]" rule: js_join.induct)
  case 1 then show ?case by simp
next
  case (2 x) then show ?case by (simp add: split_at2_none)
next
  case (3 x y ys)
  then have "split_at (x @ c # c # js_join (y # ys) [c, c]) [c, c]
             = x # split_at (js_join (y # ys) [c, c]) [c, c]"
    by (intro split_at2_append) auto
  with 3 show ?case by simp
qed

lemma split_at_first:
  "sep \<noteq> [] \<Longrightarrow> split_at s sep
     = (case spec_splitFirst s sep of None \<Rightarrow> [s] | Some (a, r) \<Rightarrow> a # split_at r sep)"
proof (induction s)
  case Nil then show ?case by simp
next
  case (Cons c cs)
  show ?case
  proof (cases "prefix sep (c # cs)")
    case True
    from Cons.prems have "drop (length sep) (c # cs) = drop (length sep - 1) cs"
      by (cases sep) simp_all
    with True show ?thesis by simp
  next
    case False
    with Cons show ?thesis
      by (cases "spec_splitFirst cs sep") (auto split: list.split)
  qed
qed

lemma js_split_first:
  "js_split tok ''=='' =
     (case spec_splitFirst tok ''=='' of
        None \<Rightarrow> [tok]
      | Some (a, r) \<Rightarrow>
          a # (case spec_splitFirst r ''=='' of
                 None \<Rightarrow> [r]
               | Some (b, c) \<Rightarrow> b # js_split c ''==''))"
proof -
  have 1: "split_at s ''=='' = (case spec_splitFirst s ''=='' of None \<Rightarrow> [s]
            | Some (a, r) \<Rightarrow> a # split_at r ''=='')" for s
    by (rule split_at_first) simp
  show ?thesis
  proof (cases "spec_splitFirst tok ''==''")
    case None
    with 1 [of tok] show ?thesis by (simp add: js_split_def)
  next
    case (Some ar)
    obtain a r where ar: "ar = (a, r)" by (cases ar)
    from 1 [of tok] Some ar have "split_at tok ''=='' = a # split_at r ''==''" by simp
    moreover have "split_at r ''=='' = (case spec_splitFirst r ''=='' of None \<Rightarrow> [r]
            | Some (b, c) \<Rightarrow> b # split_at c ''=='')" by (rule 1)
    ultimately show ?thesis using Some ar
      by (simp add: js_split_def split: option.split)
  qed
qed

section \<open>Decimal texts and array reads\<close>

lemma digit_nth_in: "d < 10 \<Longrightarrow> ''0123456789'' ! d \<in> set ''0123456789''"
  by (rule nth_mem) simp

lemma toString_digits: "set (toString n) \<subseteq> set ''0123456789''"
proof (induction n rule: toString.induct)
  case (1 n)
  show ?case
  proof (cases "n < 10")
    case True
    then show ?thesis using digit_nth_in [of n] by (subst toString.simps) simp
  next
    case False
    have "n mod 10 < 10" by simp
    with False 1 show ?thesis
      using digit_nth_in [of "n mod 10"] by (subst toString.simps) simp
  qed
qed

lemma toString_not_Nil [simp]: "toString n \<noteq> []"
  by (subst toString.simps) simp

lemma digit_val_nth: "d < 10 \<Longrightarrow> digit_val (''0123456789'' ! d) = d"
proof -
  assume "d < 10"
  then have "d \<in> {0, 1, 2, 3, 4, 5, 6, 7, 8, 9}" by auto
  then show ?thesis by (auto simp: digit_val_def)
qed

lemma read_nat_snoc: "read_nat (s @ [c]) = 10 * read_nat s + digit_val c"
  by (simp add: read_nat_def)

lemma read_nat_toString: "read_nat (toString n) = n"
proof (induction n rule: toString.induct)
  case (1 n)
  show ?case
  proof (cases "n < 10")
    case True
    then show ?thesis
      by (subst toString.simps) (simp add: read_nat_def digit_val_nth)
  next
    case False
    with 1 have "read_nat (toString (n div 10)) = n div 10" by simp
    with False show ?thesis
      by (subst toString.simps) (simp add: read_nat_snoc digit_val_nth)
  qed
qed

lemma toString_inj: "toString i = toString j \<Longrightarrow> i = j"
  by (metis read_nat_toString)

lemma find_app:
  "find P (xs @ ys) = (case find P xs of None \<Rightarrow> find P ys | Some x \<Rightarrow> Some x)"
  by (induction xs) auto

lemma find_toString: "i < n \<Longrightarrow> find (\<lambda>j. toString j = toString i) [0..<n] = Some i"
proof (induction n)
  case 0 then show ?case by simp
next
  case (Suc n)
  show ?case
  proof (cases "i < n")
    case True
    with Suc show ?thesis by (simp add: find_app)
  next
    case False
    with Suc.prems have "i = n" by simp
    moreover have "find (\<lambda>j. toString j = toString n) [0..<n] = None"
      by (auto simp: find_None_iff dest: toString_inj)
    ultimately show ?thesis by (simp add: find_app)
  qed
qed

lemma array_get_toString: "i < length xs \<Longrightarrow> array_get xs (toString i) = Some (xs ! i)"
  by (simp add: array_get_def find_toString)

lemma array_get_None_iff: "array_get xs key = None \<longleftrightarrow> (\<forall>i<length xs. toString i \<noteq> key)"
proof (cases "find (\<lambda>i. toString i = key) [0..<length xs]")
  case None
  then have "\<forall>i<length xs. toString i \<noteq> key" by (auto simp: find_None_iff)
  with None show ?thesis by (simp add: array_get_def)
next
  case (Some j)
  then have "j < length xs \<and> toString j = key"
    by (auto simp: find_Some_iff)
  with Some show ?thesis by (auto simp: array_get_def)
qed

lemma array_get_Some: "array_get xs key = Some x \<Longrightarrow> \<exists>i<length xs. key = toString i \<and> x = xs ! i"
proof -
  assume a: "array_get xs key = Some x"
  then obtain j where j: "find (\<lambda>i. toString i = key) [0..<length xs] = Some j" "x = xs ! j"
    by (auto simp: array_get_def split: option.splits)
  then have "j < length xs \<and> toString j = key" by (auto simp: find_Some_iff)
  with j show ?thesis by auto
qed

lemma numeric_toString: "numeric (toString i)"
proof -
  have "\<forall>c\<in>set (toString i). is_digit c"
    using toString_digits [of i] unfolding is_digit_def by blast
  then show ?thesis by (simp add: numeric_def list_all_iff)
qed

lemma array_get_not_numeric: "\<not> numeric key \<Longrightarrow> array_get ms key = None"
  using numeric_toString by (auto simp: array_get_None_iff)

lemma digits_no_slash: "CHR ''/'' \<notin> set (toString i)"
  using toString_digits [of i] by auto

lemma digits_no_equals: "CHR ''='' \<notin> set (toString i)"
  using toString_digits [of i] by auto

lemma last_toString_not_equals: "last (toString i) \<noteq> CHR ''=''"
  using digits_no_equals [of i] last_in_set [OF toString_not_Nil, of i] by metis

section \<open>Extraction follows the key chains\<close>

lemma resolveEntries_keyChains:
  "resolveEntries kvs cur = map (\<lambda>(ch, t). \<lparr>path = pathOf cur ch, text = t\<rparr>) (keyChains kvs)"
  by (induction kvs arbitrary: cur rule: keyChains.induct) (simp_all add: case_prod_unfold)

lemma js_join_Cons_Cons: "js_join ((c @ sep @ k) # ks) sep = c @ sep @ js_join (k # ks) sep"
  by (cases ks) simp_all

lemma pathOf_Some: "c \<noteq> [] \<Longrightarrow> pathOf (Some c) ks = js_join (c # ks) ''/''"
proof (induction ks arbitrary: c)
  case Nil then show ?case by simp
next
  case (Cons k ks)
  have "pathOf (Some c) (k # ks) = pathOf (Some (c @ ''/'' @ k)) ks"
    using Cons.prems by (simp add: childPath_def)
  also have "\<dots> = js_join ((c @ ''/'' @ k) # ks) ''/''"
    by (rule Cons.IH) simp
  also have "\<dots> = js_join (c # k # ks) ''/''"
    using js_join_Cons_Cons [of c "''/''" k ks] by simp
  finally show ?case .
qed

lemma pathOf_None:
  "ch \<noteq> [] \<Longrightarrow> hd ch \<noteq> [] \<or> tl ch = [] \<Longrightarrow> pathOf None ch = js_join ch ''/''"
proof (cases ch)
  case Nil then show "ch \<noteq> [] \<Longrightarrow> ?thesis" by simp
next
  case (Cons k ks)
  assume "hd ch \<noteq> [] \<or> tl ch = []"
  with Cons show ?thesis
    by (cases "k = []") (auto simp: childPath_def pathOf_Some)
qed

lemma keyChains_fst_not_Nil: "\<forall>c\<in>set (keyChains kvs). fst c \<noteq> []"
  by (induction kvs rule: keyChains.induct) auto

lemma keyChains_not_Nil: "plain_document kvs \<Longrightarrow> kvs \<noteq> [] \<Longrightarrow> keyChains kvs \<noteq> []"
  by (induction kvs rule: keyChains.induct) auto

lemma is_leaf_simps [simp]: "is_leaf (JStr s)" "is_leaf (JArr xs)"
  by (simp_all add: is_leaf_def)

lemma keyChains_leaf: "\<forall>c\<in>set (keyChains kvs). is_leaf (snd c)"
  by (induction kvs rule: keyChains.induct) (simp_all, force)

lemma keyChains_slash_free:
  "plain_document kvs \<Longrightarrow> \<forall>c\<in>set (keyChains kvs). \<forall>k\<in>set (fst c). CHR ''/'' \<notin> set k"
  by (induction kvs rule: keyChains.induct) auto

lemma keyChains_head:
  "no_empty_parent kvs \<Longrightarrow> \<forall>c\<in>set (keyChains kvs). hd (fst c) \<noteq> [] \<or> tl (fst c) = []"
proof (induction kvs)
  case Nil then show ?case by simp
next
  case (Cons kv kvs)
  obtain k v where kv: "kv = (k, v)" by (cases kv)
  from Cons have "\<forall>c\<in>set (keyChains kvs). hd (fst c) \<noteq> [] \<or> tl (fst c) = []"
    by (simp add: no_empty_parent_def)
  with Cons.prems kv show ?case
    by (cases v) (auto simp: no_empty_parent_def)
qed

lemma split_pathOf:
  assumes "ch \<noteq> []" "hd ch \<noteq> [] \<or> tl ch = []" "\<forall>k\<in>set ch. CHR ''/'' \<notin> set k"
  shows "js_split (pathOf None ch) ''/'' = ch"
  using assms split_at1_join [of ch "CHR ''/''"]
  by (simp add: pathOf_None js_split_def)

lemma resolveEntries_spec_extract:
  assumes "no_empty_parent kvs"
  shows "resolveEntries kvs None = spec_extract kvs"
proof -
  have "\<forall>c\<in>set (keyChains kvs). pathOf None (fst c) = js_join (fst c) ''/''"
    using keyChains_fst_not_Nil [of kvs] keyChains_head [OF assms]
    by (auto intro!: pathOf_None)
  then show ?thesis
    by (auto simp: resolveEntries_keyChains spec_extract_def)
qed

lemma paths_split_back:
  assumes "plain_document kvs" "no_empty_parent kvs"
  shows "map (\<lambda>m. js_split (path m) ''/'') (resolveEntries kvs None) = map fst (keyChains kvs)"
proof -
  have "\<forall>c\<in>set (keyChains kvs). js_split (pathOf None (fst c)) ''/'' = fst c"
    using keyChains_fst_not_Nil [of kvs] keyChains_head [OF assms(2)]
      keyChains_slash_free [OF assms(1)]
    by (auto intro!: split_pathOf)
  then show ?thesis
    by (auto simp: resolveEntries_keyChains)
qed

section \<open>Setting every leaf of a document rebuilds the document\<close>

lemma assign_absent: "k \<notin> set (map fst obj) \<Longrightarrow> assign k v obj = obj @ [(k, v)]"
  by (induction obj) auto

lemma assign_last: "k \<notin> set (map fst obj) \<Longrightarrow> assign k v (obj @ [(k, u)]) = obj @ [(k, v)]"
  by (induction obj) auto

lemma member_object_absent: "k \<notin> set (map fst obj) \<Longrightarrow> member_object obj k = []"
  by (simp add: member_object_def map_of_eq_None_iff [THEN iffD2] image_iff)

lemma member_object_last:
  "k \<notin> set (map fst obj) \<Longrightarrow> member_object (obj @ [(k, JObj sub)]) k = sub"
  by (induction obj) (auto simp: member_object_def)

lemma setChains_Nil [simp]: "setChains [] obj = obj"
  by (simp add: setChains_def)

lemma setChains_Cons [simp]: "setChains ((ch, t) # cs) obj = setChains cs (set_keys ch t obj)"
  by (simp add: setChains_def)

lemma setChains_append [simp]: "setChains (cs @ ds) obj = setChains ds (setChains cs obj)"
  by (simp add: setChains_def)

lemma set_keys_nested_present:
  "k \<notin> set (map fst obj) \<Longrightarrow> ch \<noteq> []
   \<Longrightarrow> set_keys (k # ch) t (obj @ [(k, JObj sub)]) = obj @ [(k, JObj (set_keys ch t sub))]"
  by (cases ch) (simp_all add: member_object_last assign_last)

lemma set_keys_nested_absent:
  "k \<notin> set (map fst obj) \<Longrightarrow> ch \<noteq> []
   \<Longrightarrow> set_keys (k # ch) t obj = obj @ [(k, JObj (set_keys ch t []))]"
  by (cases ch) (simp_all add: member_object_absent assign_absent)

lemma setChains_under_present:
  "k \<notin> set (map fst obj) \<Longrightarrow> \<forall>c\<in>set cs. fst c \<noteq> []
   \<Longrightarrow> setChains (map (\<lambda>(ch, t). (k # ch, t)) cs) (obj @ [(k, JObj sub)])
       = obj @ [(k, JObj (setChains cs sub))]"
proof (induction cs arbitrary: sub)
  case Nil then show ?case by simp
next
  case (Cons c cs)
  obtain ch t where c: "c = (ch, t)" by (cases c)
  with Cons.prems have "ch \<noteq> []" by simp
  with Cons c show ?case by (simp add: set_keys_nested_present)
qed

lemma setChains_under_absent:
  assumes "k \<notin> set (map fst obj)" "\<forall>c\<in>set cs. fst c \<noteq> []" "cs \<noteq> []"
  shows "setChains (map (\<lambda>(ch, t). (k # ch, t)) cs) obj = obj @ [(k, JObj (setChains cs []))]"
proof -
  from assms(3) obtain ch t cs' where cs: "cs = (ch, t) # cs'"
    by (cases cs) auto
  with assms(2) have ne: "ch \<noteq> []" "\<forall>c\<in>set cs'. fst c \<noteq> []" by simp_all
  show ?thesis
    using assms(1) ne
    by (simp add: cs set_keys_nested_absent setChains_under_present)
qed

lemma setChains_keyChains:
  "plain_document kvs \<Longrightarrow> set (map fst kvs) \<inter> set (map fst obj) = {}
   \<Longrightarrow> setChains (keyChains kvs) obj = obj @ kvs"
proof (induction kvs arbitrary: obj rule: keyChains.induct)
  case 1 then show ?case by simp
next
  case (2 key s rest)
  then have "key \<notin> set (map fst obj)" by auto
  moreover from 2 have "set (map fst rest) \<inter> set (map fst (obj @ [(key, JStr s)])) = {}" by auto
  ultimately show ?case using 2 by (simp add: assign_absent)
next
  case (3 key xs rest)
  then have "key \<notin> set (map fst obj)" by auto
  moreover from 3 have "set (map fst rest) \<inter> set (map fst (obj @ [(key, JArr xs)])) = {}" by auto
  ultimately show ?case using 3 by (simp add: assign_absent)
next
  case (4 key kvs rest)
  then have k: "key \<notin> set (map fst obj)" by auto
  from 4 have sub: "kvs \<noteq> []" "plain_document kvs" by simp_all
  have inner: "setChains (keyChains kvs) [] = kvs"
    using 4(1) [of "[]"] sub by simp
  have "setChains (map (\<lambda>(ch, t). (key # ch, t)) (keyChains kvs)) obj
        = obj @ [(key, JObj (setChains (keyChains kvs) []))]"
    using k keyChains_fst_not_Nil keyChains_not_Nil [OF sub(2) sub(1)]
    by (rule setChains_under_absent)
  moreover from 4 have "set (map fst rest) \<inter> set (map fst (obj @ [(key, JObj kvs)])) = {}" by auto
  ultimately show ?case using 4 sub inner by simp
qed simp_all

lemma setAll_pathOf:
  "\<forall>c\<in>set cs. js_split (pathOf cur (fst c)) ''/'' = fst c
   \<Longrightarrow> setAll (map (\<lambda>(ch, t). \<lparr>path = pathOf cur ch, text = t\<rparr>) cs) obj = setChains cs obj"
proof (induction cs arbitrary: obj)
  case Nil then show ?case by (simp add: setAll_def)
next
  case (Cons c cs)
  obtain ch t where c: "c = (ch, t)" by (cases c)
  from Cons.prems c have "ObjectManager_set obj (pathOf cur ch) t = set_keys ch t obj"
    by (simp add: ObjectManager_set_def)
  moreover have "setAll (map (\<lambda>(ch, t). \<lparr>path = pathOf cur ch, text = t\<rparr>) cs)
                   (set_keys ch t obj) = setChains cs (set_keys ch t obj)"
    by (rule Cons.IH) (use Cons.prems in simp)
  ultimately show ?case using c by (simp add: setAll_def)
qed

lemma setAll_resolveEntries:
  assumes "plain_document kvs" "no_empty_parent kvs"
  shows "setAll (resolveEntries kvs None) obj = setChains (keyChains kvs) obj"
proof -
  have "\<forall>c\<in>set (keyChains kvs). js_split (pathOf None (fst c)) ''/'' = fst c"
    using keyChains_fst_not_Nil [of kvs] keyChains_head [OF assms(2)]
      keyChains_slash_free [OF assms(1)]
    by (auto intro!: split_pathOf)
  then show ?thesis
    by (simp add: resolveEntries_keyChains setAll_pathOf)
qed

section \<open>Decoding the batch string\<close>

lemma stringify_leaf_last:
  "is_leaf t \<Longrightarrow> JSON_stringify t \<noteq> [] \<and> last (JSON_stringify t) \<noteq> CHR ''/''
     \<and> last (JSON_stringify t) \<noteq> CHR ''=''"
  by (cases t) (simp_all add: is_leaf_def quote_def)

lemma token_clean:
  assumes "is_leaf t" "\<not> js_includes (JSON_stringify t) ''//''"
  shows "\<not> js_includes (token i t) ''//'' \<and> (token i t \<noteq> [] \<longrightarrow> last (token i t) \<noteq> CHR ''/'')"
proof -
  have "js_includes (token i t) ''//'' = js_includes (''=='' @ JSON_stringify t) ''//''"
    unfolding token_def by (rule js_includes2_append_notin) (rule digits_no_slash)
  also have "\<dots> = js_includes (JSON_stringify t) ''//''" by simp
  finally have "\<not> js_includes (token i t) ''//''" using assms(2) by simp
  moreover have "last (token i t) \<noteq> CHR ''/''"
    using stringify_leaf_last [OF assms(1)] by (simp add: token_def)
  ultimately show ?thesis by simp
qed

lemma token_split:
  assumes "\<not> js_includes (JSON_stringify t) ''==''"
  shows "split_at (token i t) ''=='' = [toString i, JSON_stringify t]"
proof -
  have "split_at (toString i @ CHR ''='' # CHR ''='' # JSON_stringify t) ''==''
        = toString i # split_at (JSON_stringify t) ''==''"
    by (rule split_at2_append)
       (simp_all add: js_includes2_notin digits_no_equals last_toString_not_equals)
  with assms show ?thesis by (simp add: token_def split_at2_none)
qed

lemma encodeMessages_tokens:
  "encodeMessages ms = js_join (map (\<lambda>(i, m). token i (text m)) (enumerate 0 ms)) ''//''"
  by (simp add: encodeMessages_def token_def)

lemma decode_encode:
  assumes "ms \<noteq> []"
    and "\<forall>m\<in>set ms. is_leaf (text m) \<and> \<not> js_includes (JSON_stringify (text m)) ''//''
            \<and> \<not> js_includes (JSON_stringify (text m)) ''==''"
  shows "decodeText (encodeMessages ms)
         = map (\<lambda>(i, m). [toString i, JSON_stringify (text m)]) (enumerate 0 ms)"
proof -
  let ?ts = "map (\<lambda>(i, m). token i (text m)) (enumerate 0 ms)"
  have ne: "?ts \<noteq> []" using assms(1) by (cases ms) simp_all
  have clean: "\<forall>t\<in>set ?ts. \<not> js_includes t ''//'' \<and> (t \<noteq> [] \<longrightarrow> last t \<noteq> CHR ''/'')"
    using assms(2) by (auto simp: in_set_enumerate_eq dest!: token_clean)
  have "js_split (encodeMessages ms) ''//'' = ?ts"
    using split_at2_join [OF ne clean] by (simp add: js_split_def encodeMessages_tokens)
  moreover have "map (\<lambda>message. js_split message ''=='') ?ts
        = map (\<lambda>(i, m). [toString i, JSON_stringify (text m)]) (enumerate 0 ms)"
    using assms(2) by (auto simp: js_split_def in_set_enumerate_eq token_split)
  ultimately show ?thesis by (simp add: decodeText_def)
qed

lemma rebuild_tokens:
  assumes "\<forall>m\<in>set rs. parse (JSON_stringify (text m)) = Some (text m)"
  shows "rebuild parse (pre @ rs)
           (map (\<lambda>(i, m). [toString i, JSON_stringify (text m)]) (enumerate (length pre) rs)) obj
         = Inr (setAll rs obj)"
  using assms
proof (induction rs arbitrary: pre obj)
  case Nil then show ?case by (simp add: setAll_def)
next
  case (Cons m rs)
  have get: "array_get (pre @ m # rs) (toString (length pre)) = Some m"
    using array_get_toString [of "length pre" "pre @ m # rs"] by simp
  have step: "setMessage parse (pre @ m # rs) [toString (length pre), JSON_stringify (text m)] obj
        = Inr (ObjectManager_set obj (path m) (text m))"
    using Cons.prems by (simp add: setMessage_def get)
  have "rebuild parse ((pre @ [m]) @ rs)
          (map (\<lambda>(i, m). [toString i, JSON_stringify (text m)]) (enumerate (length (pre @ [m])) rs))
          (ObjectManager_set obj (path m) (text m))
        = Inr (setAll rs (ObjectManager_set obj (path m) (text m)))"
    by (rule Cons.IH) (use Cons.prems in simp)
  with step show ?case by (simp add: setAll_def)
qed

lemma decodeText_pieces:
  "tok \<in> set (js_split translated ''//'') \<Longrightarrow> js_split tok ''=='' \<in> set (decodeText translated)"
  by (simp add: decodeText_def)

lemma rebuild_fails:
  "pieces \<in> set newMessages \<Longrightarrow> \<forall>acc. \<exists>e. setMessage parse ms pieces acc = Inl e
   \<Longrightarrow> \<exists>e. rebuild parse ms newMessages obj = Inl e"
proof (induction newMessages arbitrary: obj)
  case Nil then show ?case by simp
next
  case (Cons p ps)
  show ?case
  proof (cases "setMessage parse ms p obj")
    case (Inl e) then show ?thesis by simp
  next
    case (Inr obj')
    from Cons.prems(2) have "setMessage parse ms pieces obj \<noteq> Inr obj'" by (metis sum.distinct(1))
    with Inr Cons.prems(1) have "pieces \<in> set ps" by auto
    from Cons.IH [OF this Cons.prems(2)] Inr show ?thesis by simp
  qed
qed

lemma rebuild_Inr_all:
  "rebuild parse ms newMessages obj = Inr doc
   \<Longrightarrow> \<forall>pieces\<in>set newMessages. \<exists>acc acc'. setMessage parse ms pieces acc = Inr acc'"
proof (induction newMessages arbitrary: obj)
  case Nil then show ?case by simp
next
  case (Cons p ps)
  from Cons.prems obtain obj' where
    s: "setMessage parse ms p obj = Inr obj'" and r: "rebuild parse ms ps obj' = Inr doc"
    by (cases "setMessage parse ms p obj") simp_all
  from Cons.IH [OF r] have "\<forall>pieces\<in>set ps. \<exists>acc acc'. setMessage parse ms pieces acc = Inr acc'" .
  moreover from s have "\<exists>acc acc'. setMessage parse ms p acc = Inr acc'" by blast
  ultimately show ?case by simp
qed

lemma setMessage_Inr_index:
  "setMessage parse ms pieces acc = Inr acc'
   \<Longrightarrow> pieces \<noteq> [] \<and> (\<exists>i<length ms. hd pieces = toString i)"
proof -
  assume a: "setMessage parse ms pieces acc = Inr acc'"
  show ?thesis
  proof (cases pieces)
    case Nil
    have "array_get ms ''undefined'' = None"
      by (rule array_get_not_numeric) (simp add: numeric_def is_digit_def)
    with a Nil show ?thesis by (simp add: setMessage_def)
  next
    case (Cons i rest)
    with a obtain m where "array_get ms i = Some m"
      by (auto simp: setMessage_def Let_def split: option.splits)
    from array_get_Some [OF this] Cons show ?thesis by auto
  qed
qed

lemma setMessage_out_of_range:
  "length ms \<le> n \<Longrightarrow> setMessage parse ms (toString n # rest) acc = Inl TypeError"
proof -
  assume "length ms \<le> n"
  then have "array_get ms (toString n) = None"
    by (auto simp: array_get_None_iff dest: toString_inj)
  then show ?thesis by (simp add: setMessage_def)
qed

lemma setMessage_malformed:
  assumes "parse ''undefined'' = None" "malformed_token parse tok"
  shows "\<exists>e. setMessage parse ms (js_split tok ''=='') acc = Inl e"
proof (cases "js_includes tok ''==''")
  case False
  then have "js_split tok ''=='' = [tok]" by (simp add: js_split_def split_at2_none)
  with assms(1) show ?thesis
    by (simp add: setMessage_def split: option.split)
next
  case True
  with assms(2) obtain index payload rest where
    ps: "js_split tok ''=='' = index # payload # rest"
    and bad: "\<not> numeric index \<or> parse payload = None"
    by (auto simp: malformed_token_def split: list.splits)
  show ?thesis
  proof (cases "numeric index")
    case False
    then show ?thesis by (simp add: ps setMessage_def array_get_not_numeric)
  next
    case True
    with bad have "parse payload = None" by simp
    then show ?thesis by (simp add: ps setMessage_def split: option.split)
  qed
qed

section \<open>The round trip\<close>

lemma roundTrip_plain:
  assumes "kvs \<noteq> []" "plain_document kvs" "no_empty_parent kvs"
    and "list_all (\<lambda>m. parse (JSON_stringify (text m)) = Some (text m)
              \<and> \<not> js_includes (JSON_stringify (text m)) ''//''
              \<and> \<not> js_includes (JSON_stringify (text m)) ''=='') (resolveEntries kvs None)"
  shows "roundTrip parse (JObj kvs) = Inr kvs"
proof -
  let ?ms = "resolveEntries kvs None"
  have ne: "?ms \<noteq> []"
    using keyChains_not_Nil [OF assms(2) assms(1)] by (simp add: resolveEntries_keyChains)
  have leaf: "\<forall>m\<in>set ?ms. is_leaf (text m)"
    using keyChains_leaf [of kvs] by (auto simp: resolveEntries_keyChains)
  from assms(4) have ok: "\<forall>m\<in>set ?ms. parse (JSON_stringify (text m)) = Some (text m)"
    and clean: "\<forall>m\<in>set ?ms. \<not> js_includes (JSON_stringify (text m)) ''//''
                  \<and> \<not> js_includes (JSON_stringify (text m)) ''==''"
    by (auto simp: list_all_iff)
  have "decodeText (encodeMessages ?ms)
        = map (\<lambda>(i, m). [toString i, JSON_stringify (text m)]) (enumerate 0 ?ms)"
    using ne leaf clean by (intro decode_encode) auto
  moreover have "rebuild parse ([] @ ?ms)
          (map (\<lambda>(i, m). [toString i, JSON_stringify (text m)]) (enumerate (length ([]::LeafRecord list)) ?ms)) []
        = Inr (setAll ?ms [])"
    using ok by (rule rebuild_tokens)
  moreover have "setAll ?ms [] = kvs"
    using setAll_resolveEntries [OF assms(2,3), of "[]"] setChains_keyChains [OF assms(2), of "[]"]
    by simp
  ultimately show ?thesis
    by (simp add: roundTrip_def resolveMessages_def resolvePaths_def)
qed

lemma translateFile_json_identity:
  assumes "files w p = Some content" "parse content = Some (JObj kvs)"
    and "kvs \<noteq> []" "plain_document kvs" "no_empty_parent kvs"
    and "list_all (\<lambda>m. parse (JSON_stringify (text m)) = Some (text m)
              \<and> \<not> js_includes (JSON_stringify (text m)) ''//''
              \<and> \<not> js_includes (JSON_stringify (text m)) ''=='') (resolveEntries kvs None)"
  shows "fst (translateFile_json parse identity_backend w p) = None
     \<and> files (snd (translateFile_json parse identity_backend w p))
       = (files w)(pathTranslated p ''json'' \<mapsto> JSON_stringify_indent4 (JObj kvs))"
proof -
  have rm: "resolveMessages (JObj kvs) = Inr (resolveEntries kvs None)"
    by (simp add: resolveMessages_def resolvePaths_def)
  from roundTrip_plain [OF assms(3-6)]
  have "rebuild parse (resolveEntries kvs None)
          (decodeText (encodeMessages (resolveEntries kvs None))) [] = Inr kvs"
    by (simp add: roundTrip_def rm)
  then show ?thesis
    by (simp add: translateFile_json_def assms(1,2) rm identity_backend_def Let_def)
qed

section \<open>Files and the store\<close>

lemma files_translateFile_error:
  "fst (translateFile parse backend w p) \<noteq> None
   \<Longrightarrow> files (snd (translateFile parse backend w p)) = files w"
  by (auto simp: translateFile_def translateFile_json_def translateFile_txt_def Let_def
        split: option.splits sum.splits if_splits)

lemma baseName_dir:
  assumes "CHR ''/'' \<notin> set base" "dir = [] \<or> last dir = CHR ''/''"
  shows "baseName (dir @ base) = base"
proof (cases "dir = []")
  case True
  with assms(1) show ?thesis by (simp add: baseName_def js_split_def split_at1_none)
next
  case False
  with assms(2) obtain d where d: "dir = d @ [CHR ''/'']"
    by (metis append_butlast_last_id)
  have "last (split_at (d @ CHR ''/'' # base) [CHR ''/'']) = base"
    using assms(1) by (rule last_split_at1_append)
  with d show ?thesis by (simp add: baseName_def js_split_def)
qed

lemma takeWhile_stem: "c \<notin> set stem \<Longrightarrow> takeWhile (\<lambda>x. x \<noteq> c) (stem @ c # ext) = stem"
  by (induction stem) auto

lemma stem_ext:
  assumes "CHR ''.'' \<notin> set stem" "CHR ''.'' \<notin> set ext"
  shows "hd (js_split (stem @ ''.'' @ ext) ''.'') = stem"
    and "last (js_split (stem @ ''.'' @ ext) ''.'') = ext"
proof -
  show "hd (js_split (stem @ ''.'' @ ext) ''.'') = stem"
    using takeWhile_stem [OF assms(1), of ext] by (simp add: js_split_def hd_split_at1)
  have "last (split_at (stem @ CHR ''.'' # ext) [CHR ''.'']) = ext"
    using assms(2) by (rule last_split_at1_append)
  then show "last (js_split (stem @ ''.'' @ ext) ''.'') = ext"
    by (simp add: js_split_def)
qed

lemma path_parts:
  assumes "CHR ''/'' \<notin> set stem" "CHR ''.'' \<notin> set stem"
    "ext = ''json'' \<or> ext = ''txt''" "dir = [] \<or> last dir = CHR ''/''"
  shows "baseName (dir @ stem @ ''.'' @ ext) = stem @ ''.'' @ ext"
    and "fileType (dir @ stem @ ''.'' @ ext) = ext"
    and "pathTranslated (dir @ stem @ ''.'' @ ext) ext = stem @ ''-translated.'' @ ext"
proof -
  from assms(3) have e: "CHR ''/'' \<notin> set ext" "CHR ''.'' \<notin> set ext" by auto
  with assms(1) have "CHR ''/'' \<notin> set (stem @ ''.'' @ ext)" by simp
  from baseName_dir [OF this assms(4)]
  show b: "baseName (dir @ stem @ ''.'' @ ext) = stem @ ''.'' @ ext" by simp
  show "fileType (dir @ stem @ ''.'' @ ext) = ext"
    unfolding fileType_def b by (rule stem_ext(2) [OF assms(2) e(2)])
  show "pathTranslated (dir @ stem @ ''.'' @ ext) ext = stem @ ''-translated.'' @ ext"
    unfolding pathTranslated_def b by (simp only: stem_ext(1) [OF assms(2) e(2)])
qed

lemma translateFile_json_writes:
  "fst (translateFile_json parse backend w p) = None
   \<Longrightarrow> \<exists>content. files (snd (translateFile_json parse backend w p))
         = (files w)(pathTranslated p ''json'' \<mapsto> content)"
  by (auto simp: translateFile_json_def Let_def split: option.splits sum.splits)

lemma translateFile_txt_writes:
  "fst (translateFile_txt backend w p) = None
   \<Longrightarrow> \<exists>content. files (snd (translateFile_txt backend w p))
         = (files w)(pathTranslated p ''txt'' \<mapsto> content)"
  by (auto simp: translateFile_txt_def Let_def split: option.splits)

lemma calls_translate:
  "calls (snd (translate backend w message l)) = calls w @ [(js_join message '' '', l)]"
  by (simp add: translate_def Let_def split: option.split)

lemma db_translate: "db (snd (translate backend w message l)) = db w"
  by (simp add: translate_def Let_def split: option.split)

lemma db_run: "db (snd (run backend w message options)) = db w"
  by (simp add: run_def db_translate)

lemma db_translateFile_json: "db (snd (translateFile_json parse backend w p)) = db w"
  by (simp add: translateFile_json_def Let_def split: option.split sum.split)

lemma db_translateFile_txt: "db (snd (translateFile_txt backend w p)) = db w"
  by (simp add: translateFile_txt_def Let_def split: option.split)

lemma db_translateFile: "db (snd (translateFile parse backend w p)) = db w"
  by (simp add: translateFile_def db_translateFile_json db_translateFile_txt)

section \<open>The claims\<close>

subsection \<open>C1\<close>

text \<open>
  C1 (as amended). For every document that has at least one member, whose members are
  all non-empty strings, non-empty arrays or non-empty nested documents of the same kind,
  whose keys contain no slash and are distinct within a mapping, in which no top-level key
  holding a nested mapping is the empty string, and in which the JSON encoding of no leaf
  contains "//" or "==": the pipeline \<^verbatim>\<open>rebuild(extract(D), decode(encode(extract(D))))\<close>
  with the identity backend returns \<open>D\<close> itself, the same keys in the same order at every
  level with the same leaf values. The reader \<open>parse\<close> is any function that reads back
  what \<open>JSON_stringify\<close> wrote for each leaf. Nothing is claimed for a leaf whose encoding
  contains a separator: the JSON encoding copies "/" and "=" unchanged and does not
  protect the delimiters.
\<close>

theorem C1_round_trip:
  assumes "kvs \<noteq> []" and "plain_document kvs" and "no_empty_parent kvs"
    and "list_all (\<lambda>m. parse (JSON_stringify (text m)) = Some (text m)
              \<and> \<not> js_includes (JSON_stringify (text m)) ''//''
              \<and> \<not> js_includes (JSON_stringify (text m)) ''=='') (resolveEntries kvs None)"
  shows "roundTrip parse (JObj kvs) = Inr kvs
     \<and> (files w p = Some content \<and> parse content = Some (JObj kvs)
        \<longrightarrow> fst (translateFile_json parse identity_backend w p) = None
           \<and> files (snd (translateFile_json parse identity_backend w p))
               = (files w)(pathTranslated p ''json'' \<mapsto> JSON_stringify_indent4 (JObj kvs)))"
  using roundTrip_plain [OF assms] translateFile_json_identity [OF _ _ assms, of w p content]
  by blast

text \<open>The theorem at a document with a nested mapping and an array leaf, in the file
  \<^verbatim>\<open>dir/doc.json\<close>.\<close>

theorem C1_round_trip_witness:
  "doc1 \<noteq> [] \<and> plain_document doc1 \<and> no_empty_parent doc1
   \<and> roundTrip JSON_parse (JObj doc1) = Inr doc1
   \<and> fst (translateFile_json JSON_parse identity_backend world_files ''dir/doc.json'') = None
   \<and> files (snd (translateFile_json JSON_parse identity_backend world_files ''dir/doc.json''))
       = (files world_files)(pathTranslated ''dir/doc.json'' ''json''
            \<mapsto> JSON_stringify_indent4 (JObj doc1))"
proof -
  have h: "doc1 \<noteq> []" "plain_document doc1" "no_empty_parent doc1"
    by code_simp+
  have l: "list_all (\<lambda>m. JSON_parse (JSON_stringify (text m)) = Some (text m)
              \<and> \<not> js_includes (JSON_stringify (text m)) ''//''
              \<and> \<not> js_includes (JSON_stringify (text m)) ''=='') (resolveEntries doc1 None)"
    by code_simp
  have f: "files world_files ''dir/doc.json''
      = Some ''{\"greeting\": \"hello\", \"nested\": {\"farewell\": \"bye\", \"list\": [\"a\", \"b\"]}}''"
    by (simp add: world_files_def world0_def)
  have d: "JSON_parse
       ''{\"greeting\": \"hello\", \"nested\": {\"farewell\": \"bye\", \"list\": [\"a\", \"b\"]}}''
      = Some (JObj doc1)"
    by code_simp
  from C1_round_trip [OF h l, of world_files "''dir/doc.json''"] h f d show ?thesis by simp
qed

text \<open>The claim as stated fails. A leaf text with "//" or with "==" in it is cut at the
  separator and the decoding throws; a key with a slash in it comes back as two nested
  levels; an empty nested mapping is not rebuilt; the empty document gives the batch
  string "", whose one token has no index, and the loop throws; a leaf under an empty
  top-level key comes back one level up.\<close>

theorem C1_round_trip_counterexample:
  "roundTrip JSON_parse (JObj [(''a'', JStr ''x//y'')]) = Inl SyntaxError
   \<and> roundTrip JSON_parse (JObj [(''a'', JStr ''x==y'')]) = Inl SyntaxError
   \<and> roundTrip JSON_parse (JObj [(''a/b'', JStr ''x'')]) = Inr [(''a'', JObj [(''b'', JStr ''x'')])]
   \<and> roundTrip JSON_parse (JObj [(''a'', JObj []), (''b'', JStr ''x'')]) = Inr [(''b'', JStr ''x'')]
   \<and> roundTrip JSON_parse (JObj []) = Inl TypeError
   \<and> roundTrip JSON_parse (JObj [([], JObj [(''b'', JStr ''x'')])]) = Inr [(''b'', JStr ''x'')]"
  by code_simp

subsection \<open>C2\<close>

text \<open>
  C2 (as amended). For every token, the decoder splits the token on every occurrence of
  "==" and reads the first two pieces. The index part is the text before the first "=="
  (the whole token when there is none). The JSON-text part is the text between the first
  and the second "==", or all that follows the first when there is no second; what
  follows a second "==" is cut off and not read. The index part is not parsed as a
  number: it is the key of an array read, which finds a record exactly when the key is
  the decimal text of a position below the length. The JSON-text part is parsed as JSON
  (the text "undefined" when the token has no "==").
\<close>

theorem C2_decoder_pieces:
  "js_split tok ''=='' =
     (case spec_splitFirst tok ''=='' of
        None \<Rightarrow> [tok]
      | Some (a, r) \<Rightarrow>
          a # (case spec_splitFirst r ''=='' of
                 None \<Rightarrow> [r]
               | Some (b, c) \<Rightarrow> b # js_split c ''==''))
   \<and> setMessage parse messages (js_split tok ''=='') obj =
     (let index = (case spec_splitFirst tok ''=='' of None \<Rightarrow> tok | Some (a, r) \<Rightarrow> a);
          jsonText = (case spec_splitFirst tok ''=='' of
                        None \<Rightarrow> ''undefined''
                      | Some (a, r) \<Rightarrow>
                          (case spec_splitFirst r ''=='' of None \<Rightarrow> r | Some (b, c) \<Rightarrow> b))
      in case array_get messages index of
           None \<Rightarrow> Inl TypeError
         | Some m \<Rightarrow>
             (case parse jsonText of
                None \<Rightarrow> Inl SyntaxError
              | Some v \<Rightarrow> Inr (ObjectManager_set obj (path m) v)))
   \<and> (array_get messages key = None \<longleftrightarrow> (\<forall>i<length messages. toString i \<noteq> key))"
proof -
  have 2: "setMessage parse messages (js_split tok ''=='') obj =
     (let index = (case spec_splitFirst tok ''=='' of None \<Rightarrow> tok | Some (a, r) \<Rightarrow> a);
          jsonText = (case spec_splitFirst tok ''=='' of
                        None \<Rightarrow> ''undefined''
                      | Some (a, r) \<Rightarrow>
                          (case spec_splitFirst r ''=='' of None \<Rightarrow> r | Some (b, c) \<Rightarrow> b))
      in case array_get messages index of
           None \<Rightarrow> Inl TypeError
         | Some m \<Rightarrow>
             (case parse jsonText of
                None \<Rightarrow> Inl SyntaxError
              | Some v \<Rightarrow> Inr (ObjectManager_set obj (path m) v)))"
    by (subst js_split_first) (simp add: setMessage_def split: option.split)
  from js_split_first [of tok] 2 array_get_None_iff [of messages key] show ?thesis by blast
qed

text \<open>The theorem at the token \<^verbatim>\<open>0=="a==b"\<close>: the JSON-text part is \<^verbatim>\<open>"a\<close>; and
  at the key "00", which is the decimal text of no position.\<close>

theorem C2_decoder_pieces_witness:
  "js_split ''0==\"a==b\"'' ''=='' = [''0'', [CHR 0x22, CHR ''a''], [CHR ''b'', CHR 0x22]]
   \<and> setMessage JSON_parse one_leaf (js_split ''0==\"a==b\"'' ''=='') [] = Inl SyntaxError
   \<and> array_get one_leaf ''00'' = None
   \<and> toString 0 \<noteq> ''00''"
proof -
  have e: "spec_splitFirst ''0==\"a==b\"'' ''=='' = Some (''0'', ''\"a==b\"'')"
    "spec_splitFirst ''\"a==b\"'' ''=='' = Some ([CHR 0x22, CHR ''a''], [CHR ''b'', CHR 0x22])"
    "js_split [CHR ''b'', CHR 0x22] ''=='' = [[CHR ''b'', CHR 0x22]]"
    "array_get one_leaf ''0'' = Some \<lparr>path = ''k'', text = JStr ''a''\<rparr>"
    "JSON_parse [CHR 0x22, CHR ''a''] = None"
    "array_get one_leaf ''00'' = None"
    "length one_leaf = 1"
    by code_simp+
  from C2_decoder_pieces [of "''0==\"a==b\"''" JSON_parse one_leaf "[]" "''00''"] e
  show ?thesis by auto
qed

text \<open>The claim as stated fails at the token \<^verbatim>\<open>0=="a==b"\<close>: split on the first
  "==" its JSON-text part is \<^verbatim>\<open>"a==b"\<close>, which is JSON, but the decoder hands
  \<^verbatim>\<open>"a\<close> to the reader. And the index is not parsed: "00" is the integer 0 in base
  10, the position of a record, yet the read with the key "00" finds nothing, where "0"
  does.\<close>

theorem C2_decoder_counterexample:
  "spec_splitFirst ''0==\"a==b\"'' ''=='' = Some (''0'', ''\"a==b\"'')
   \<and> JSON_parse ''\"a==b\"'' = Some (JStr ''a==b'')
   \<and> js_split ''0==\"a==b\"'' ''=='' = [''0'', [CHR 0x22, CHR ''a''], [CHR ''b'', CHR 0x22]]
   \<and> setMessage JSON_parse one_leaf (js_split ''0==\"a==b\"'' ''=='') [] = Inl SyntaxError
   \<and> read_nat ''00'' = 0
   \<and> setMessage JSON_parse one_leaf (js_split ''00==\"x\"'' ''=='') [] = Inl TypeError
   \<and> setMessage JSON_parse one_leaf (js_split ''0==\"x\"'' ''=='') [] = Inr [(''k'', JStr ''x'')]"
  by code_simp

subsection \<open>C3\<close>

text \<open>
  C3 (as amended). Decoding is all-or-nothing over what the decoder reads. For every batch
  string with a token that has no "==", or whose first piece is not a number, or whose
  second piece (the text between the first and the second "==") is not valid JSON:
  the decode-and-rebuild loop ends with an error whatever the records and the document
  built so far, the \<^verbatim>\<open>json\<close> case of \<^verbatim>\<open>translateFile\<close> ends with an error and
  leaves the files as they were, and on every path a run of \<^verbatim>\<open>translateFile\<close> that
  ends with an error has written no file. (\<^verbatim>\<open>JSON.parse(undefined)\<close> throws: the first
  hypothesis.) Text after a second "==" of a token is not read and is not an error.
\<close>

theorem C3_all_or_nothing:
  assumes "parse ''undefined'' = None"
    and "tok \<in> set (js_split translated ''//'')"
    and "malformed_token parse tok"
  shows "(\<exists>e. rebuild parse messages (decodeText translated) obj = Inl e)
     \<and> (files w p = Some content \<and> parse content = Some data
          \<and> resolveMessages data = Inr messages
          \<and> backend (encodeMessages messages) (targetLanguage w) = Some translated
        \<longrightarrow> fst (translateFile_json parse backend w p) \<noteq> None
           \<and> files (snd (translateFile_json parse backend w p)) = files w)
     \<and> (fst (translateFile parse backend w p) \<noteq> None
        \<longrightarrow> files (snd (translateFile parse backend w p)) = files w)"
proof -
  have fail: "\<exists>e. rebuild parse ms (decodeText translated) acc = Inl e" for ms acc
  proof (rule rebuild_fails [OF decodeText_pieces [OF assms(2)]])
    show "\<forall>acc. \<exists>e. setMessage parse ms (js_split tok ''=='') acc = Inl e"
      using setMessage_malformed [OF assms(1,3)] by blast
  qed
  have written: "fst (translateFile_json parse backend w p) \<noteq> None
           \<and> files (snd (translateFile_json parse backend w p)) = files w"
    if "files w p = Some content" "parse content = Some data"
      "resolveMessages data = Inr messages"
      "backend (encodeMessages messages) (targetLanguage w) = Some translated"
  proof -
    from fail [of messages "[]"] obtain e where
      "rebuild parse messages (decodeText translated) [] = Inl e" by blast
    with that show ?thesis by (simp add: translateFile_json_def Let_def)
  qed
  from fail [of messages obj] written files_translateFile_error [of parse backend w p]
  show ?thesis by blast
qed

text \<open>The theorem at a backend that answers \<^verbatim>\<open>0=="hola"//oops\<close> for a document of
  three leaves.\<close>

theorem C3_all_or_nothing_witness:
  "JSON_parse ''undefined'' = None
   \<and> ''oops'' \<in> set (js_split ''0==\"hola\"//oops'' ''//'')
   \<and> malformed_token JSON_parse ''oops''
   \<and> fst (translateFile_json JSON_parse junk_backend world_files ''dir/doc.json'') \<noteq> None
   \<and> files (snd (translateFile_json JSON_parse junk_backend world_files ''dir/doc.json''))
       = files world_files"
proof -
  have h: "JSON_parse ''undefined'' = None"
    "''oops'' \<in> set (js_split ''0==\"hola\"//oops'' ''//'')"
    "malformed_token JSON_parse ''oops''"
    by code_simp+
  have f: "files world_files ''dir/doc.json''
      = Some ''{\"greeting\": \"hello\", \"nested\": {\"farewell\": \"bye\", \"list\": [\"a\", \"b\"]}}''"
    by (simp add: world_files_def world0_def)
  have d: "JSON_parse
       ''{\"greeting\": \"hello\", \"nested\": {\"farewell\": \"bye\", \"list\": [\"a\", \"b\"]}}''
      = Some (JObj doc1)"
    by code_simp
  have m: "resolveMessages (JObj doc1) = Inr (resolveEntries doc1 None)"
    by (simp add: resolveMessages_def resolvePaths_def)
  have b: "junk_backend (encodeMessages (resolveEntries doc1 None)) (targetLanguage world_files)
            = Some ''0==\"hola\"//oops''"
    by (simp add: junk_backend_def)
  from C3_all_or_nothing [OF h, where w = world_files and p = "''dir/doc.json''"
      and backend = junk_backend] f d m b h
  show ?thesis by blast
qed

text \<open>The claim as stated fails at the token \<^verbatim>\<open>0=="a"==junk\<close>: what follows its first
  "==" is not JSON, yet the decoding succeeds and the output file is written.\<close>

theorem C3_all_or_nothing_counterexample:
  "spec_splitFirst ''0==\"a\"==junk'' ''=='' = Some (''0'', ''\"a\"==junk'')
   \<and> JSON_parse ''\"a\"==junk'' = None
   \<and> rebuild JSON_parse one_leaf (decodeText ''0==\"a\"==junk'') [] = Inr [(''k'', JStr ''a'')]
   \<and> fst (translateFile JSON_parse truncating_backend world_files ''a.b.json'') = None
   \<and> files (snd (translateFile JSON_parse truncating_backend world_files ''a.b.json''))
        ''a-translated.json'' = Some (JSON_stringify_indent4 (JObj [(''k'', JStr ''a'')]))"
  by code_simp

subsection \<open>C4\<close>

text \<open>
  C4 (as amended). For every selected file whose base name is \<open>stem.json\<close> or
  \<open>stem.txt\<close> with no dot in \<open>stem\<close>, in any directory, a run that succeeds writes
  exactly one file, named \<open>stem-translated.json\<close> (or \<open>.txt\<close>). The name has no
  directory part: the file is a sibling of the input only when the selected path has none.
\<close>

theorem C4_output_name:
  assumes "CHR ''/'' \<notin> set stem" and "CHR ''.'' \<notin> set stem"
    and "ext = ''json'' \<or> ext = ''txt''"
    and "dir = [] \<or> last dir = CHR ''/''"
    and "files w (dir @ stem @ ''.'' @ ext) \<noteq> None"
    and "fst (translateFile parse backend w (dir @ stem @ ''.'' @ ext)) = None"
  shows "\<exists>content. files (snd (translateFile parse backend w (dir @ stem @ ''.'' @ ext)))
           = (files w)(stem @ ''-translated.'' @ ext \<mapsto> content)"
proof -
  let ?p = "dir @ stem @ ''.'' @ ext"
  note parts = path_parts [OF assms(1-4)]
  from assms(3) show ?thesis
  proof
    assume j: "ext = ''json''"
    have eq: "translateFile parse backend w ?p = translateFile_json parse backend w ?p"
      unfolding translateFile_def using assms(5) parts(2) j by auto
    with assms(6) have "fst (translateFile_json parse backend w ?p) = None" by simp
    from translateFile_json_writes [OF this] eq parts(3) j show ?thesis by simp
  next
    assume t: "ext = ''txt''"
    have eq: "translateFile parse backend w ?p = translateFile_txt backend w ?p"
      unfolding translateFile_def using assms(5) parts(2) t by auto
    with assms(6) have "fst (translateFile_txt backend w ?p) = None" by simp
    from translateFile_txt_writes [OF this] eq parts(3) t show ?thesis by simp
  qed
qed

text \<open>The theorem at \<^verbatim>\<open>dir/doc.json\<close>.\<close>

theorem C4_output_name_witness:
  "\<exists>content. files (snd (translateFile JSON_parse identity_backend world_files
                           (''dir/'' @ ''doc'' @ ''.'' @ ''json'')))
      = (files world_files)(''doc'' @ ''-translated.'' @ ''json'' \<mapsto> content)"
proof -
  have h: "CHR ''/'' \<notin> set ''doc''" "CHR ''.'' \<notin> set ''doc''"
    "''json'' = ''json'' \<or> ''json'' = ''txt''" "''dir/'' = [] \<or> last ''dir/'' = CHR ''/''"
    by simp_all
  have f: "files world_files (''dir/'' @ ''doc'' @ ''.'' @ ''json'') \<noteq> None"
    "fst (translateFile JSON_parse identity_backend world_files
           (''dir/'' @ ''doc'' @ ''.'' @ ''json'')) = None"
    by code_simp+
  from C4_output_name [OF h f] show ?thesis .
qed

text \<open>The claim as stated fails: \<^verbatim>\<open>a.b.json\<close> is written to
  \<^verbatim>\<open>a-translated.json\<close>, not to \<^verbatim>\<open>a.b-translated.json\<close>; and the translation of
  \<^verbatim>\<open>dir/x.txt\<close> is written to \<^verbatim>\<open>x-translated.txt\<close>, not into \<^verbatim>\<open>dir\<close>.\<close>

theorem C4_output_name_counterexample:
  "pathTranslated ''a.b.json'' ''json'' = ''a-translated.json''
   \<and> files (snd (translateFile JSON_parse identity_backend world_files ''a.b.json''))
        ''a.b-translated.json'' = None
   \<and> files (snd (translateFile JSON_parse identity_backend world_files ''a.b.json''))
        ''a-translated.json'' = Some (JSON_stringify_indent4 (JObj [(''k'', JStr ''v'')]))
   \<and> files (snd (translateFile JSON_parse identity_backend world_files ''dir/x.txt''))
        ''dir/x-translated.txt'' = None
   \<and> files (snd (translateFile JSON_parse identity_backend world_files ''dir/x.txt''))
        ''x-translated.txt'' = Some ''hello''"
  by code_simp

subsection \<open>C5\<close>

text \<open>
  C5. A phrase translation whose arguments were accepted (a message, and a \<^verbatim>\<open>--to\<close> value
  of the catalog if one is given) calls the backend exactly once, with the target language
  taken in this order: the \<^verbatim>\<open>--to\<close> value, else the stored default language, else
  the literal "en".
\<close>

theorem C5_target_language_order:
  assumes "message \<noteq> []"
    and "toArg = None \<or> the toArg \<in> set (longName (db w)) \<union> set (shortName (db w))"
  shows "calls (snd (Translate_parse parse backend w toArg False (Phrase message)))
         = calls w @ [(js_join message '' '',
              (case toArg of
                 Some t \<Rightarrow> t
               | None \<Rightarrow> (case defaultLanguage (db w) of Some d \<Rightarrow> d | None \<Rightarrow> ''en'')))]"
proof (cases toArg)
  case None
  with assms(1) show ?thesis
    by (simp add: Translate_parse_def run_def calls_translate)
next
  case (Some v)
  with assms(2) have "verifyString (db w) v = Inr v"
    by (auto simp: verifyString_def)
  with Some assms(1) show ?thesis
    by (simp add: Translate_parse_def run_def calls_translate)
qed

text \<open>The theorem with a stored default "fr" and no flag, with neither, and with an
  explicit \<^verbatim>\<open>--to es\<close> over the stored default.\<close>

theorem C5_target_language_witness:
  "calls (snd (Translate_parse JSON_parse identity_backend world_fr None False
            (Phrase [''good'', ''morning'']))) = [(''good morning'', ''fr'')]
   \<and> calls (snd (Translate_parse JSON_parse identity_backend world0 None False
            (Phrase [''good'', ''morning'']))) = [(''good morning'', ''en'')]
   \<and> calls (snd (Translate_parse JSON_parse identity_backend world_fr (Some ''es'') False
            (Phrase [''good'', ''morning'']))) = [(''good morning'', ''es'')]"
  using C5_target_language_order [of "[''good'', ''morning'']" None world_fr JSON_parse identity_backend]
    C5_target_language_order [of "[''good'', ''morning'']" None world0 JSON_parse identity_backend]
    C5_target_language_order [of "[''good'', ''morning'']" "Some ''es''" world_fr JSON_parse identity_backend]
  by (simp add: world_fr_def world0_def catalog_def)

subsection \<open>C6\<close>

text \<open>
  C6. Extraction records the keys whose value is a non-empty string or array, with the
  slash-joined key chain as path. The code at the document
  \<^verbatim>\<open>{"": {"b": "x"}, "b": "y"}\<close>: the leaf under the empty top-level key gets the path
  "b", where the slash-joined chain is "/b", and two records share one path. The code
  tests the parent path for truthiness, and the empty string is falsy. At the document of
  the claim, \<^verbatim>\<open>{a: "", b: [], c: "hi"}\<close>, the code yields the one record for \<open>c\<close>.
  (For every document without an empty top-level key over a nested mapping the code's
  extraction is the spec's: lemma \<open>resolveEntries_spec_extract\<close>.)
\<close>

theorem C6_empty_parent_key:
  "resolveMessages (JObj [('''', JObj [(''b'', JStr ''x'')]), (''b'', JStr ''y'')])
     = Inr [\<lparr>path = ''b'', text = JStr ''x''\<rparr>, \<lparr>path = ''b'', text = JStr ''y''\<rparr>]
   \<and> spec_extract [('''', JObj [(''b'', JStr ''x'')]), (''b'', JStr ''y'')]
     = [\<lparr>path = ''/b'', text = JStr ''x''\<rparr>, \<lparr>path = ''b'', text = JStr ''y''\<rparr>]
   \<and> resolveMessages (JObj [(''a'', JStr ''''), (''b'', JArr []), (''c'', JStr ''hi'')])
     = Inr [\<lparr>path = ''c'', text = JStr ''hi''\<rparr>]"
  by code_simp

subsection \<open>C7\<close>

text \<open>
  C7. A \<^verbatim>\<open>--to\<close> value that is neither a long name nor a short name of the catalog is
  refused while the arguments are read, whatever the command and the other options: the
  invocation ends with an InvalidArgumentError and the world is the one it started in, so
  the backend was called zero times and no file was touched.
\<close>

theorem C7_unknown_language_rejected:
  assumes "v \<notin> set (longName (db w))" and "v \<notin> set (shortName (db w))"
  shows "(\<exists>msg. fst (Translate_parse parse backend w (Some v) flag cmd)
                  = Some (InvalidArgumentError msg))
         \<and> snd (Translate_parse parse backend w (Some v) flag cmd) = w
         \<and> calls (snd (Translate_parse parse backend w (Some v) flag cmd)) = calls w
         \<and> files (snd (Translate_parse parse backend w (Some v) flag cmd)) = files w"
  using assms by (simp add: Translate_parse_def verifyString_def)

text \<open>The theorem at \<^verbatim>\<open>--to xx\<close>, for a phrase and for the \<^verbatim>\<open>file\<close> command.\<close>

theorem C7_unknown_language_witness:
  "''xx'' \<notin> set (longName (db world0)) \<and> ''xx'' \<notin> set (shortName (db world0))
   \<and> calls (snd (Translate_parse JSON_parse identity_backend world0 (Some ''xx'') False
              (Phrase [''hello'']))) = []
   \<and> snd (Translate_parse JSON_parse identity_backend world0 (Some ''xx'') False
              (Phrase [''hello''])) = world0
   \<and> snd (Translate_parse JSON_parse identity_backend world0 (Some ''xx'') False
              (File ''dir/doc.json'')) = world0"
  using C7_unknown_language_rejected [of "''xx''" world0 JSON_parse identity_backend False "Phrase [''hello'']"]
    C7_unknown_language_rejected [of "''xx''" world0 JSON_parse identity_backend False "File ''dir/doc.json''"]
  by (simp add: world0_def catalog_def)

subsection \<open>C8\<close>

text \<open>
  C8. If a decoded pair has the index \<open>n\<close> and \<open>n\<close> is not below the number of original
  records, the rebuild loop ends with an error instead of a document; and when the loop
  returns a document, every decoded index is the decimal text of a position of an
  original record.
\<close>

theorem C8_index_out_of_range:
  "(length messages \<le> n \<and> (toString n # rest) \<in> set newMessages
      \<longrightarrow> (\<exists>e. rebuild parse messages newMessages obj = Inl e))
   \<and> (rebuild parse messages newMessages obj = Inr doc
      \<longrightarrow> (\<forall>pieces\<in>set newMessages.
             pieces \<noteq> [] \<and> (\<exists>i<length messages. hd pieces = toString i)))"
proof (intro conjI impI)
  assume a: "length messages \<le> n \<and> (toString n # rest) \<in> set newMessages"
  then have "\<forall>acc. \<exists>e. setMessage parse messages (toString n # rest) acc = Inl e"
    by (simp add: setMessage_out_of_range)
  with a show "\<exists>e. rebuild parse messages newMessages obj = Inl e"
    by (blast intro: rebuild_fails)
next
  assume "rebuild parse messages newMessages obj = Inr doc"
  from rebuild_Inr_all [OF this]
  show "\<forall>pieces\<in>set newMessages. pieces \<noteq> [] \<and> (\<exists>i<length messages. hd pieces = toString i)"
    by (blast dest: setMessage_Inr_index)
qed

text \<open>The theorem with one original record: the pairs with the indices 0 and 5 fail, the
  pair with the index 0 alone gives a document.\<close>

theorem C8_index_out_of_range_witness:
  "length one_leaf \<le> 5
   \<and> (toString 5 # [''\"b\"'']) \<in> set [[''0'', ''\"a\"''], [''5'', ''\"b\"'']]
   \<and> (\<exists>e. rebuild JSON_parse one_leaf [[''0'', ''\"a\"''], [''5'', ''\"b\"'']] [] = Inl e)
   \<and> rebuild JSON_parse one_leaf [[''0'', ''\"a\"'']] [] = Inr [(''k'', JStr ''a'')]
   \<and> hd [''0'', ''\"a\"''] = toString 0"
proof -
  have h: "length one_leaf \<le> 5 \<and> (toString 5 # [''\"b\"'']) \<in> set [[''0'', ''\"a\"''], [''5'', ''\"b\"'']]"
    by code_simp
  have s: "rebuild JSON_parse one_leaf [[''0'', ''\"a\"'']] [] = Inr [(''k'', JStr ''a'')]"
    "hd [''0'', ''\"a\"''] = toString 0"
    by code_simp+
  from C8_index_out_of_range [of one_leaf 5 "[''\"b\"'']" "[[''0'', ''\"a\"''], [''5'', ''\"b\"'']]" JSON_parse "[]"] h s
  show ?thesis by blast
qed

subsection \<open>C9\<close>

text \<open>
  C9. The stored default language is written by the \<^verbatim>\<open>to\<close> command only: after a phrase
  translation, a file translation or the \<^verbatim>\<open>web\<close> command the store is the one before
  the command, whatever the options and the outcome; after \<^verbatim>\<open>to\<close> the default is the
  chosen entry, unless the arguments were refused, and then the store is unchanged too.
\<close>

theorem C9_default_language_frame:
  "db (snd (Translate_parse parse backend w toArg flag cmd))
     = (case cmd of
          To language \<Rightarrow>
            (if fst (Translate_parse parse backend w toArg flag cmd) = None
             then (db w)\<lparr>defaultLanguage := Some language\<rparr> else db w)
        | _ \<Rightarrow> db w)
   \<and> db (snd (run backend w message options)) = db w
   \<and> db (snd (translate backend w message l)) = db w
   \<and> db (snd (translateFile parse backend w p)) = db w"
  by (cases cmd)
     (simp_all add: Translate_parse_def db_run db_translate db_translateFile to_def
        split: option.split sum.split)

subsection \<open>C10\<close>

text \<open>
  C10. Splitting the path of a record on the slash should give back the key chain of its
  leaf when no key contains a slash. The code at the document \<^verbatim>\<open>{"": {"b": "x"}}\<close>,
  where no key contains a slash: the path of the leaf is "b", its split is the chain
  \<open>[b]\<close> and not \<open>[empty, b]\<close>, and the document rebuilt by the identity pipeline is
  \<^verbatim>\<open>{"b": "x"}\<close>, one level flatter than the source. The second half of the claim holds:
  \<^verbatim>\<open>{"a/b": "x"}\<close> comes back as \<^verbatim>\<open>{"a": {"b": "x"}}\<close>. (For every document of the
  round-trip kind without an empty top-level key over a nested mapping the split gives
  the chain back: lemma \<open>paths_split_back\<close>.)
\<close>

theorem C10_empty_parent_key_nesting:
  "map (\<lambda>m. js_split (path m) ''/'') (resolveEntries [('''', JObj [(''b'', JStr ''x'')])] None)
     = [[''b'']]
   \<and> map fst (keyChains [('''', JObj [(''b'', JStr ''x'')])]) = [['''', ''b'']]
   \<and> roundTrip JSON_parse (JObj [('''', JObj [(''b'', JStr ''x'')])]) = Inr [(''b'', JStr ''x'')]
   \<and> roundTrip JSON_parse (JObj [(''a/b'', JStr ''x'')]) = Inr [(''a'', JObj [(''b'', JStr ''x'')])]"
  by code_simp

end
